theory Spec2Isabelle
  imports Main "HOL-Library.Word"
begin

unbundle bit_operations_syntax

section \<open>disk-filltest: machine types and constants\<close>

text \<open>
  The embedding follows the most capable revision of the program (version 0.8.2, with
  \<^verbatim>\<open>write_randfiles\<close>, the last-file-size marker and the repeat loop). The platform
  is taken to be LP64 with a little-endian byte order: \<^verbatim>\<open>unsigned int\<close> is 32 bits,
  \<^verbatim>\<open>uint64_t\<close> and \<^verbatim>\<open>size_t\<close> are 64 bits, \<^verbatim>\<open>sizeof(int)\<close> is 4.
\<close>

type_synonym u64 = "64 word"
type_synonym u32 = "32 word"
type_synonym byte = "8 word"

definition UINT_MAX :: u32 where
  "UINT_MAX = 0xFFFFFFFF"

text \<open>\<^verbatim>\<open>typedef uint64_t item_type;  item_type block[(1024 * 1024) / sizeof(item_type)];\<close>\<close>

definition sizeof_item_type :: nat where
  "sizeof_item_type = 8"

definition sizeof_int :: nat where
  "sizeof_int = 4"

definition sizeof_block :: nat where
  "sizeof_block = 1024 * 1024"

definition block_items :: nat where
  "block_items = sizeof_block div sizeof_item_type"

text \<open>A 32-bit loop counter below its bound can be incremented without wrapping; this
  is the termination argument of every counted loop below.\<close>

lemma u32_loop_measure:
  fixes b lim :: u32
  assumes "b < lim"
  shows "unat lim - unat (b + 1) < unat lim - unat b"
proof -
  have lt: "unat b < unat lim" using assms by (simp add: word_less_nat_alt)
  moreover have "unat lim < 2 ^ 32" using unsigned_less [of lim] by simp
  ultimately have "unat (b + 1) = Suc (unat b)" by (simp add: unat_word_ariths)
  with lt show ?thesis by simp
qed

section \<open>The stream generator\<close>

text \<open>
  \<^verbatim>\<open>uint64_t lcg_random(uint64_t *xn) { *xn = 0x27BB2EE687B0B0FDLLU * *xn + 0xB504F32DLU; return *xn; }\<close>
  The model returns the pair (returned value, new content of \<^verbatim>\<open>*xn\<close>).
\<close>

definition lcg_random :: "u64 \<Rightarrow> u64 \<times> u64" where
  "lcg_random xn = (let xn' = 0x27BB2EE687B0B0FD * xn + 0xB504F32D in (xn', xn'))"

text \<open>The first \<open>k\<close> values returned by successive calls, and the state after \<open>k\<close> calls.\<close>

fun lcg_stream :: "u64 \<Rightarrow> nat \<Rightarrow> u64 list" where
  "lcg_stream s 0 = []"
| "lcg_stream s (Suc k) = (case lcg_random s of (v, s') \<Rightarrow> v # lcg_stream s' k)"

fun lcg_state :: "u64 \<Rightarrow> nat \<Rightarrow> u64" where
  "lcg_state s 0 = s"
| "lcg_state s (Suc k) = lcg_state (snd (lcg_random s)) k"

text \<open>The multiplier and the increment as 64-bit words, and the geometric sum
  \<open>1 + a + \<dots> + a^(k-1)\<close> used in the closed form of the recurrence.\<close>

definition lcg_A :: u64 where
  "lcg_A = 0x27BB2EE687B0B0FD"

definition lcg_C :: u64 where
  "lcg_C = 0xB504F32D"

fun gsum :: "nat \<Rightarrow> nat \<Rightarrow> nat" where
  "gsum a 0 = 0"
| "gsum a (Suc k) = 1 + a * gsum a k"

section \<open>Blocks as bytes\<close>

text \<open>
  A block is an array of \<^verbatim>\<open>item_type\<close>; \<^verbatim>\<open>write\<close> and \<^verbatim>\<open>read\<close> see it as
  \<^verbatim>\<open>char*\<close>. Items are laid out least significant byte first.
\<close>

definition item_bytes :: "u64 \<Rightarrow> byte list" where
  "item_bytes x = map (\<lambda>k. ucast (drop_bit (8 * k) x)) [0..<8]"

fun item_of_bytes :: "byte list \<Rightarrow> u64" where
  "item_of_bytes [] = 0"
| "item_of_bytes (b # bs) = ucast b OR push_bit 8 (item_of_bytes bs)"

definition bytes_of_items :: "u64 list \<Rightarrow> byte list" where
  "bytes_of_items xs = concat (map item_bytes xs)"

text \<open>The items \<^verbatim>\<open>block[i]\<close> for \<^verbatim>\<open>i < rb / sizeof(item_type)\<close> after \<open>rb\<close> bytes were
  read into the start of the block.\<close>

fun items_of_bytes :: "nat \<Rightarrow> byte list \<Rightarrow> u64 list" where
  "items_of_bytes 0 bs = []"
| "items_of_bytes (Suc n) bs = item_of_bytes (take 8 bs) # items_of_bytes n (drop 8 bs)"

text \<open>The byte stream of a file seeded with \<open>s\<close>: the bytes of its first \<open>n\<close> items.\<close>

definition stream_bytes :: "u64 \<Rightarrow> nat \<Rightarrow> byte list" where
  "stream_bytes s n = bytes_of_items (lcg_stream s n)"

section \<open>File names\<close>

text \<open>\<^verbatim>\<open>sprintf(filename, "random-%08u", filenum);\<close>\<close>

definition digit_char :: "nat \<Rightarrow> char" where
  "digit_char d = ''0123456789'' ! d"

function dec_digits :: "nat \<Rightarrow> string" where
  "dec_digits n = (if n < 10 then [digit_char n] else dec_digits (n div 10) @ [digit_char (n mod 10)])"
  by pat_completeness auto
termination
  by (relation "measure id") auto

declare dec_digits.simps [simp del]

definition filename_of :: "u32 \<Rightarrow> string" where
  "filename_of filenum =
     (let d = dec_digits (unat filenum)
      in ''random-'' @ replicate (8 - length d) (CHR ''0'') @ d)"

text \<open>Reading a decimal numeral back; used only to show that distinct file numbers have
  distinct names.\<close>

definition digit_val :: "char \<Rightarrow> nat" where
  "digit_val c = of_char c - 48"

definition undec :: "string \<Rightarrow> nat" where
  "undec s = foldl (\<lambda>a c. 10 * a + digit_val c) 0 s"

section \<open>The operating system as seen by the program\<close>

text \<open>
  What the program prints, one constructor per \<^verbatim>\<open>printf\<close>. Throughput and estimated
  time are floating-point values derived from the clock and are left out; the flag of
  \<open>Wrote\<close> records whether the line with the estimate was chosen. The progress dots of
  \<^verbatim>\<open>unlink_randfiles\<close> are summarised by their total.
\<close>

datatype msg =
    Removing_old_files_total u32
  | Writing_files u32
  | Error_opening_next_file string
  | Error_unlinking_opened_file string
  | Error_writing_next_file string
  | Wrote string nat bool
  | Verifying u32 u32
  | Finished_all_opened_file_handles
  | Error_seeking_in_next_file string
  | Unexpectedly_short_file string u32 nat
  | Error_reading_file string
  | Mismatch string u32 u64
  | Read_data string nat
  | Successfully_verified u32 u32

text \<open>
  The file system: a directory from names to inodes, the bytes of each inode, and the table
  of open descriptors with their inode and file offset. An inode outlives its directory
  entry, which is what the immediate-unlink policy relies on. The calls that can fail for
  reasons outside the program take their verdict from the environment: \<open>create_fails\<close>
  and \<open>read_fails\<close> give, call by call, whether the next creating \<^verbatim>\<open>open\<close> or the next
  \<^verbatim>\<open>read\<close> fails; \<open>write_results\<close> gives, call by call, the result of \<^verbatim>\<open>write\<close>: a value
  \<open>\<le> 0\<close> is a failure, a positive value is the number of bytes accepted at most. Once a
  list is used up the calls succeed in full. \<open>statvfs_result\<close> is the pair
  (\<^verbatim>\<open>f_blocks\<close>, \<^verbatim>\<open>f_bsize\<close>) of a successful \<^verbatim>\<open>statvfs\<close>.
\<close>

record world =
  dir :: "string \<rightharpoonup> nat"
  inodes :: "nat \<Rightarrow> byte list"
  fdt :: "nat \<rightharpoonup> nat \<times> nat"
  next_ino :: nat
  next_fd :: nat
  create_fails :: "bool list"
  write_results :: "int list"
  read_fails :: "bool list"
  statvfs_result :: "(u64 \<times> u64) option"
  stdout :: "msg list"

definition print :: "msg \<Rightarrow> world \<Rightarrow> world" where
  "print m w = w\<lparr>stdout := stdout w @ [m]\<rparr>"

definition new_fd :: "nat \<Rightarrow> world \<Rightarrow> nat \<times> world" where
  "new_fd ino w = (next_fd w, w\<lparr>fdt := (fdt w)(next_fd w \<mapsto> (ino, 0)), next_fd := Suc (next_fd w)\<rparr>)"

text \<open>\<^verbatim>\<open>open(filename, O_RDWR | O_CREAT | O_TRUNC | O_BINARY, 0600)\<close>; \<open>None\<close> is \<^verbatim>\<open>fd < 0\<close>.\<close>

definition os_open_creat :: "string \<Rightarrow> world \<Rightarrow> nat option \<times> world" where
  "os_open_creat name w =
     (case create_fails w of
        True # rest \<Rightarrow> (None, w\<lparr>create_fails := rest\<rparr>)
      | _ \<Rightarrow>
          (let w1 = w\<lparr>create_fails := tl (create_fails w)\<rparr> in
           case dir w1 name of
             Some ino \<Rightarrow>
               (case new_fd ino (w1\<lparr>inodes := (inodes w1)(ino := [])\<rparr>) of (fd, w2) \<Rightarrow> (Some fd, w2))
           | None \<Rightarrow>
               (case new_fd (next_ino w1)
                       (w1\<lparr>dir := (dir w1)(name \<mapsto> next_ino w1),
                           inodes := (inodes w1)(next_ino w1 := []),
                           next_ino := Suc (next_ino w1)\<rparr>) of
                  (fd, w2) \<Rightarrow> (Some fd, w2))))"

text \<open>\<^verbatim>\<open>open(filename, O_RDONLY | O_BINARY)\<close>\<close>

definition os_open_rdonly :: "string \<Rightarrow> world \<Rightarrow> nat option \<times> world" where
  "os_open_rdonly name w =
     (case dir w name of
        None \<Rightarrow> (None, w)
      | Some ino \<Rightarrow> (case new_fd ino w of (fd, w1) \<Rightarrow> (Some fd, w1)))"

definition os_close :: "nat \<Rightarrow> world \<Rightarrow> world" where
  "os_close fd w = w\<lparr>fdt := (fdt w)(fd := None)\<rparr>"

text \<open>\<^verbatim>\<open>unlink(filename)\<close>; the flag is \<^verbatim>\<open>unlink(filename) == 0\<close>.\<close>

definition os_unlink :: "string \<Rightarrow> world \<Rightarrow> bool \<times> world" where
  "os_unlink name w =
     (case dir w name of
        None \<Rightarrow> (False, w)
      | Some ino \<Rightarrow> (True, w\<lparr>dir := (dir w)(name := None)\<rparr>))"

text \<open>\<^verbatim>\<open>lseek(fd, 0, SEEK_SET)\<close>; the flag is \<^verbatim>\<open>lseek(...) == 0\<close>.\<close>

definition os_lseek0 :: "nat \<Rightarrow> world \<Rightarrow> bool \<times> world" where
  "os_lseek0 fd w =
     (case fdt w fd of
        None \<Rightarrow> (False, w)
      | Some (ino, off) \<Rightarrow> (True, w\<lparr>fdt := (fdt w)(fd \<mapsto> (ino, 0))\<rparr>))"

definition store_at :: "nat \<Rightarrow> byte list \<Rightarrow> byte list \<Rightarrow> byte list" where
  "store_at off chunk d =
     take off d @ replicate (off - length d) 0 @ chunk @ drop (off + length chunk) d"

definition put_bytes :: "nat \<Rightarrow> nat \<Rightarrow> nat \<Rightarrow> byte list \<Rightarrow> world \<Rightarrow> world" where
  "put_bytes fd ino off chunk w =
     w\<lparr>inodes := (inodes w)(ino := store_at off chunk (inodes w ino)),
       fdt := (fdt w)(fd \<mapsto> (ino, off + length chunk))\<rparr>"

text \<open>\<^verbatim>\<open>write(fd, buf, count)\<close> with \<open>count = length buf\<close>; the result is \<^verbatim>\<open>wb\<close>.\<close>

definition os_write :: "nat \<Rightarrow> byte list \<Rightarrow> world \<Rightarrow> int \<times> world" where
  "os_write fd buf w =
     (case fdt w fd of
        None \<Rightarrow> (- 1, w)
      | Some (ino, off) \<Rightarrow>
          (case write_results w of
             [] \<Rightarrow> (int (length buf), put_bytes fd ino off buf w)
           | r # rest \<Rightarrow>
               if r \<le> 0 then (r, w\<lparr>write_results := rest\<rparr>)
               else (int (length (take (nat r) buf)),
                     put_bytes fd ino off (take (nat r) buf) (w\<lparr>write_results := rest\<rparr>))))"

text \<open>\<^verbatim>\<open>read(fd, block, count)\<close> on a regular file: \<open>None\<close> is \<^verbatim>\<open>rb < 0\<close>, \<open>Some bs\<close> is
  \<^verbatim>\<open>rb = length bs\<close> with \<open>bs\<close> stored at the start of the block; \<open>bs\<close> is short only at
  the end of the file.\<close>

definition os_read :: "nat \<Rightarrow> nat \<Rightarrow> world \<Rightarrow> byte list option \<times> world" where
  "os_read fd count w =
     (case fdt w fd of
        None \<Rightarrow> (None, w)
      | Some (ino, off) \<Rightarrow>
          (case read_fails w of
             True # rest \<Rightarrow> (None, w\<lparr>read_fails := rest\<rparr>)
           | _ \<Rightarrow>
               (let bs = take count (drop off (inodes w ino))
                in (Some bs, w\<lparr>read_fails := tl (read_fails w),
                               fdt := (fdt w)(fd \<mapsto> (ino, off + length bs))\<rparr>))))"

section \<open>The program\<close>

text \<open>The global variables. \<open>g_filehandle\<close> is the list of open descriptors with
  \<^verbatim>\<open>g_filehandle_size\<close> its length; the growth of the array by \<^verbatim>\<open>realloc\<close> and its
  out-of-memory exit are not modelled.\<close>

record globals =
  g_seed :: u32
  gopt_readonly :: bool
  gopt_unlink_immediate :: bool
  gopt_unlink_after :: bool
  gopt_skip_verify :: bool
  gopt_file_size :: u32
  gopt_file_limit :: u32
  gopt_repeat :: int
  g_last_filesize :: u32
  g_filehandle :: "nat list"

datatype status = EXIT_SUCCESS | EXIT_FAILURE

text \<open>How a phase ends: it returns to its caller, it calls \<^verbatim>\<open>exit\<close>, or it reads more
  bytes into the block than the block holds, after which the C program has no defined
  behaviour.\<close>

datatype result =
    Returned globals world
  | Exited status globals world
  | Overrun globals world

definition filehandle_append :: "nat \<Rightarrow> globals \<Rightarrow> globals" where
  "filehandle_append fd G = G\<lparr>g_filehandle := g_filehandle G @ [fd]\<rparr>"

subsection \<open>\<^verbatim>\<open>unlink_randfiles\<close>\<close>

function unlink_loop :: "u32 \<Rightarrow> world \<Rightarrow> u32 \<times> world" where
  "unlink_loop filenum w =
     (if filenum < UINT_MAX then
        (let r = os_unlink (filename_of filenum) w in
         if \<not> fst r then (filenum, snd r)
         else unlink_loop (filenum + 1) (snd r))
      else (filenum, w))"
  by pat_completeness auto
termination
  by (relation "measure (\<lambda>(filenum, w). unat UINT_MAX - unat filenum)")
     (auto simp add: UINT_MAX_def word_less_nat_alt unat_word_ariths)

declare unlink_loop.simps [simp del]

definition unlink_randfiles :: "world \<Rightarrow> world" where
  "unlink_randfiles w =
     (case unlink_loop 0 w of
        (filenum, w1) \<Rightarrow> if filenum > 0 then print (Removing_old_files_total filenum) w1 else w1)"

subsection \<open>\<^verbatim>\<open>write_randfiles\<close>\<close>

text \<open>The expected number of files computed from the free space:
  \<^verbatim>\<open>(free_size + gopt_file_size - 1) / (1024 * 1024) / gopt_file_size\<close> in 64-bit unsigned
  arithmetic, stored in an \<^verbatim>\<open>unsigned int\<close>.\<close>

definition expected_from_free :: "u64 \<Rightarrow> u32 \<Rightarrow> u32" where
  "expected_from_free free_size file_size =
     ucast ((free_size + ucast file_size - 1) div (1024 * 1024) div ucast file_size)"

definition write_expected_file_limit :: "globals \<Rightarrow> world \<Rightarrow> u32" where
  "write_expected_file_limit G w =
     (if gopt_file_limit G = UINT_MAX then
        (case statvfs_result w of
           None \<Rightarrow> UINT_MAX
         | Some (f_blocks, f_bsize) \<Rightarrow> expected_from_free (f_blocks * f_bsize) (gopt_file_size G))
      else gopt_file_limit G)"

text \<open>\<^verbatim>\<open>for (i = 0; i < sizeof(block) / sizeof(item_type); ++i) block[i] = lcg_random(&rnd);\<close>
  for a block of \<open>n\<close> items: the block and the generator state afterwards.\<close>

fun fill_block :: "nat \<Rightarrow> u64 \<Rightarrow> u64 list \<times> u64" where
  "fill_block 0 rnd = ([], rnd)"
| "fill_block (Suc n) rnd =
     (case lcg_random rnd of
        (v, rnd1) \<Rightarrow> (case fill_block n rnd1 of (vs, rnd2) \<Rightarrow> (v # vs, rnd2)))"

text \<open>\<^verbatim>\<open>while (wp != sizeof(block) && !done) { wb = write(fd, (char*)block + wp, sizeof(block) - wp); ... }\<close>
  The result is (\<^verbatim>\<open>wp\<close>, \<^verbatim>\<open>done\<close>, world).\<close>

function write_block :: "nat \<Rightarrow> string \<Rightarrow> byte list \<Rightarrow> nat \<Rightarrow> bool \<Rightarrow> world \<Rightarrow> nat \<times> bool \<times> world" where
  "write_block fd filename block wp done w =
     (if wp \<noteq> sizeof_block \<and> \<not> done then
        (let r = os_write fd (take (sizeof_block - wp) (drop wp block)) w in
         if fst r \<le> 0 then (wp, True, print (Error_writing_next_file filename) (snd r))
         else write_block fd filename block (wp + nat (fst r)) done (snd r))
      else (wp, done, w))"
  by pat_completeness auto
termination
  by (relation "measure (\<lambda>(fd, filename, block, wp, done, w). sizeof_block - wp)")
     (auto simp add: os_write_def split: option.splits list.splits if_splits)

declare write_block.simps [simp del]

text \<open>\<^verbatim>\<open>for (blocknum = 0; blocknum < gopt_file_size; ++blocknum) { ... wtotal += wp; }\<close>
  The loop has no test of \<^verbatim>\<open>done\<close>: after a failed write it still runs through the
  remaining blocks, drawing their items, with the inner loop skipped. The result is
  (\<^verbatim>\<open>wtotal\<close>, \<^verbatim>\<open>done\<close>, world).\<close>

function write_blocks :: "globals \<Rightarrow> nat \<Rightarrow> string \<Rightarrow> u32 \<Rightarrow> u64 \<Rightarrow> nat \<Rightarrow> bool \<Rightarrow> world \<Rightarrow> nat \<times> bool \<times> world" where
  "write_blocks G fd filename blocknum rnd wtotal done w =
     (if blocknum < gopt_file_size G then
        (let fb = fill_block block_items rnd;
             r = write_block fd filename (bytes_of_items (fst fb)) 0 done w
         in write_blocks G fd filename (blocknum + 1) (snd fb) (wtotal + fst r) (fst (snd r)) (snd (snd r)))
      else (wtotal, done, w))"
  by pat_completeness auto
termination
  by (relation "measure (\<lambda>(G, fd, filename, blocknum, rnd, wtotal, done, w). unat (gopt_file_size G) - unat blocknum)")
     (auto intro: u32_loop_measure)

declare write_blocks.simps [simp del]

text \<open>One pass of the body of \<^verbatim>\<open>while (!done && filenum < gopt_file_limit)\<close> after a
  successful \<^verbatim>\<open>open\<close>: the globals, \<^verbatim>\<open>done\<close> and the world after the file.\<close>

definition write_one_file :: "globals \<Rightarrow> u32 \<Rightarrow> u32 \<Rightarrow> nat \<Rightarrow> bool \<Rightarrow> world \<Rightarrow> globals \<times> bool \<times> world" where
  "write_one_file G expected_file_limit filenum fd done w1 =
     (let filename = filename_of filenum;
          w2 = (if gopt_unlink_immediate G then
                  (case os_unlink filename w1 of
                     (True, w') \<Rightarrow> w'
                   | (False, w') \<Rightarrow> print (Error_unlinking_opened_file filename) w')
                else w1);
          filenum1 = filenum + 1;
          rnd = ucast (g_seed G + filenum1);
          r = write_blocks G fd filename 0 rnd 0 done w2;
          wtotal = fst r;
          w3 = snd (snd r);
          G1 = (if gopt_unlink_immediate G then filehandle_append fd G else G);
          w4 = (if gopt_unlink_immediate G then w3 else os_close fd w3);
          G2 = G1\<lparr>g_last_filesize := of_nat wtotal\<rparr>;
          w5 = print (Wrote filename wtotal
                        (expected_file_limit \<noteq> UINT_MAX \<and> filenum1 \<le> expected_file_limit)) w4
      in (G2, fst (snd r), w5))"

function write_files :: "globals \<Rightarrow> u32 \<Rightarrow> u32 \<Rightarrow> bool \<Rightarrow> world \<Rightarrow> globals \<times> world" where
  "write_files G expected_file_limit filenum done w =
     (if \<not> done \<and> filenum < gopt_file_limit G then
        (let opn = os_open_creat (filename_of filenum) w in
         case fst opn of
           None \<Rightarrow> (G, print (Error_opening_next_file (filename_of filenum)) (snd opn))
         | Some fd \<Rightarrow>
             (let r = write_one_file G expected_file_limit filenum fd done (snd opn)
              in write_files (fst r) expected_file_limit (filenum + 1) (fst (snd r)) (snd (snd r))))
      else (G, w))"
  by pat_completeness auto
termination
  by (relation "measure (\<lambda>(G, expected_file_limit, filenum, done, w). unat (gopt_file_limit G) - unat filenum)")
     (auto simp add: write_one_file_def filehandle_append_def Let_def intro: u32_loop_measure)

declare write_files.simps [simp del]

definition write_randfiles :: "globals \<Rightarrow> world \<Rightarrow> globals \<times> world" where
  "write_randfiles G w =
     write_files G (write_expected_file_limit G w) 0 False (print (Writing_files (g_seed G)) w)"

subsection \<open>\<^verbatim>\<open>read_randfiles\<close>\<close>

text \<open>The probing loop \<^verbatim>\<open>for (expected_file_limit = 0; ; ++expected_file_limit)\<close>. It has no
  bound of its own, so it is a partial function: \<open>None\<close> is a loop that never ends.\<close>

partial_function (option) probe_files :: "u32 \<Rightarrow> world \<Rightarrow> (u32 \<times> world) option" where
  "probe_files expected_file_limit w =
     (case os_open_rdonly (filename_of expected_file_limit) w of
        (None, w1) \<Rightarrow> Some (expected_file_limit, w1)
      | (Some fd, w1) \<Rightarrow> probe_files (expected_file_limit + 1) (os_close fd w1))"

text \<open>The size handed to \<^verbatim>\<open>read\<close>:
  \<^verbatim>\<open>unsigned int read_size = sizeof(block);
  if (filenum == expected_file_limit && g_last_filesize != UINT_MAX &&
      blocknum * sizeof(block) > g_last_filesize)
      read_size = g_last_filesize - (blocknum - 1) * sizeof(block);\<close>
  The comparison and the subtraction are in \<^verbatim>\<open>size_t\<close>, \<^verbatim>\<open>blocknum - 1\<close> in
  \<^verbatim>\<open>unsigned int\<close>, and the result is cut to \<^verbatim>\<open>unsigned int\<close>.\<close>

definition read_size_of :: "globals \<Rightarrow> u32 \<Rightarrow> u32 \<Rightarrow> u32 \<Rightarrow> u32" where
  "read_size_of G expected_file_limit filenum blocknum =
     (if filenum = expected_file_limit \<and> g_last_filesize G \<noteq> UINT_MAX \<and>
         (ucast (g_last_filesize G) :: u64) < ucast blocknum * of_nat sizeof_block
      then ucast ((ucast (g_last_filesize G) :: u64) - ucast (blocknum - 1) * of_nat sizeof_block)
      else of_nat sizeof_block)"

text \<open>\<^verbatim>\<open>for (i = 0; i < rb / sizeof(item_type); ++i) if (block[i] != lcg_random(&rnd)) { ... }\<close>
  over the items read: \<open>Inl i\<close> is the index of the first item that differs, \<open>Inr rnd\<close> the
  generator state when all items agree.\<close>

fun check_items :: "u64 list \<Rightarrow> nat \<Rightarrow> u64 \<Rightarrow> nat + u64" where
  "check_items [] i rnd = Inr rnd"
| "check_items (x # xs) i rnd =
     (case lcg_random rnd of
        (v, rnd1) \<Rightarrow> if x \<noteq> v then Inl i else check_items xs (Suc i) rnd1)"

text \<open>The loop over the blocks of one file. It ends by \<^verbatim>\<open>exit(EXIT_FAILURE)\<close>, by reading
  past the block, or by leaving the loop with \<^verbatim>\<open>rtotal\<close> and \<^verbatim>\<open>done\<close>.\<close>

datatype blocks_result =
    Blocks_exit globals world
  | Blocks_overrun globals world
  | Blocks_end nat bool world

function read_blocks :: "globals \<Rightarrow> u32 \<Rightarrow> u32 \<Rightarrow> string \<Rightarrow> nat \<Rightarrow> u32 \<Rightarrow> u64 \<Rightarrow> nat \<Rightarrow> world \<Rightarrow> blocks_result" where
  "read_blocks G expected_file_limit filenum filename fd blocknum rnd rtotal w =
     (if blocknum < gopt_file_size G then
        (let r = os_read fd (unat (read_size_of G expected_file_limit filenum blocknum)) w in
         case fst r of
           None \<Rightarrow> Blocks_exit G (print (Error_reading_file filename) (snd r))
         | Some bs \<Rightarrow>
             if bs = [] then
               (if filenum \<noteq> expected_file_limit \<or>
                   (g_last_filesize G \<noteq> UINT_MAX \<and> (of_nat rtotal :: u64) \<noteq> ucast (g_last_filesize G))
                then Blocks_exit G
                       (print (Unexpectedly_short_file filename (g_last_filesize G) rtotal) (snd r))
                else Blocks_end rtotal True (snd r))
             else if sizeof_block < length bs then Blocks_overrun G (snd r)
             else
               (case check_items (items_of_bytes (length bs div sizeof_item_type) bs) 0 rnd of
                  Inl i \<Rightarrow>
                    Blocks_exit (G\<lparr>gopt_unlink_after := False\<rparr>)
                      (print (Mismatch filename blocknum (of_nat (i * sizeof_int))) (snd r))
                | Inr rnd1 \<Rightarrow>
                    read_blocks G expected_file_limit filenum filename fd (blocknum + 1) rnd1
                      (rtotal + length bs) (snd r)))
      else Blocks_end rtotal False w)"
  by pat_completeness auto
termination
  by (relation "measure (\<lambda>(G, expected_file_limit, filenum, filename, fd, blocknum, rnd, rtotal, w).
                   unat (gopt_file_size G) - unat blocknum)")
     (auto intro: u32_loop_measure)

declare read_blocks.simps [simp del]

text \<open>How the next file is reached at the top of \<^verbatim>\<open>while (!done)\<close>: through the list of
  kept descriptors, rewound by \<^verbatim>\<open>lseek\<close>, or by opening the name.\<close>

datatype open_result =
    Open_break world
  | Open_exit world
  | Open_ok nat world

definition open_next :: "globals \<Rightarrow> u32 \<Rightarrow> world \<Rightarrow> open_result" where
  "open_next G filenum w =
     (if gopt_unlink_immediate G then
        (if (of_nat (length (g_filehandle G)) :: u32) \<le> filenum
         then Open_break (print Finished_all_opened_file_handles w)
         else
           (case os_lseek0 (g_filehandle G ! unat filenum) w of
              (False, w1) \<Rightarrow> Open_exit (print (Error_seeking_in_next_file (filename_of filenum)) w1)
            | (True, w1) \<Rightarrow> Open_ok (g_filehandle G ! unat filenum) w1))
      else
        (case os_open_rdonly (filename_of filenum) w of
           (None, w1) \<Rightarrow> Open_break (print (Error_opening_next_file (filename_of filenum)) w1)
         | (Some fd, w1) \<Rightarrow> Open_ok fd w1))"

text \<open>What follows the loop: the closing line and the return.\<close>

definition read_finish :: "globals \<Rightarrow> u32 \<Rightarrow> world \<Rightarrow> result" where
  "read_finish G expected_file_limit w =
     Returned G (print (Successfully_verified expected_file_limit (g_seed G)) w)"

text \<open>The loop \<^verbatim>\<open>while (!done)\<close> over the files. The file number is only ever
  incremented, so this loop too is a partial function.\<close>

partial_function (option) read_files :: "globals \<Rightarrow> u32 \<Rightarrow> u32 \<Rightarrow> world \<Rightarrow> result option" where
  "read_files G expected_file_limit filenum w =
     (case open_next G filenum w of
        Open_break w1 \<Rightarrow> Some (read_finish G expected_file_limit w1)
      | Open_exit w1 \<Rightarrow> Some (Exited EXIT_FAILURE G w1)
      | Open_ok fd w1 \<Rightarrow>
          (case read_blocks G expected_file_limit (filenum + 1) (filename_of filenum) fd 0
                  (ucast (g_seed G + (filenum + 1))) 0 w1 of
             Blocks_exit G1 w2 \<Rightarrow> Some (Exited EXIT_FAILURE G1 w2)
           | Blocks_overrun G1 w2 \<Rightarrow> Some (Overrun G1 w2)
           | Blocks_end rtotal done w2 \<Rightarrow>
               (if done
                then Some (read_finish G expected_file_limit
                             (print (Read_data (filename_of filenum) rtotal) (os_close fd w2)))
                else read_files G expected_file_limit (filenum + 1)
                       (print (Read_data (filename_of filenum) rtotal) (os_close fd w2)))))"

definition read_randfiles :: "globals \<Rightarrow> world \<Rightarrow> result option" where
  "read_randfiles G w =
     (case (if gopt_unlink_immediate G
            then Some (of_nat (length (g_filehandle G)), w)
            else probe_files 0 w) of
        None \<Rightarrow> None
      | Some (expected_file_limit, w1) \<Rightarrow>
          read_files G expected_file_limit 0
            (print (Verifying expected_file_limit (g_seed G)) w1))"

subsection \<open>\<^verbatim>\<open>main\<close>\<close>

text \<open>The phases, recorded in the order in which \<^verbatim>\<open>main\<close> calls them.\<close>

datatype phase = CLEAN_OLD | FILL | VERIFY | CLEAN_AFTER

text \<open>\<^verbatim>\<open>for (r = 0; r < gopt_repeat; ++r)\<close>, by the number of iterations still to run. The
  result carries the phases entered so far.\<close>

fun main_loop :: "nat \<Rightarrow> globals \<Rightarrow> world \<Rightarrow> phase list \<Rightarrow> (result \<times> phase list) option" where
  "main_loop 0 G w tr = Some (Returned G w, tr)"
| "main_loop (Suc n) G w tr =
     (if gopt_readonly G then
        (case read_randfiles G w of
           None \<Rightarrow> None
         | Some (Returned G1 w1) \<Rightarrow>
             (if gopt_unlink_after G1
              then main_loop n G1 (unlink_randfiles w1) (tr @ [VERIFY, CLEAN_AFTER])
              else main_loop n G1 w1 (tr @ [VERIFY]))
         | Some (Exited st G1 w1) \<Rightarrow> Some (Exited st G1 w1, tr @ [VERIFY])
         | Some (Overrun G1 w1) \<Rightarrow> Some (Overrun G1 w1, tr @ [VERIFY]))
      else
        (case write_randfiles G (unlink_randfiles w) of
           (G1, w1) \<Rightarrow>
             (if \<not> gopt_skip_verify G1 then
                (case read_randfiles G1 w1 of
                   None \<Rightarrow> None
                 | Some (Returned G2 w2) \<Rightarrow>
                     (if gopt_unlink_after G2
                      then main_loop n G2 (unlink_randfiles w2)
                             (tr @ [CLEAN_OLD, FILL, VERIFY, CLEAN_AFTER])
                      else main_loop n G2 w2 (tr @ [CLEAN_OLD, FILL, VERIFY]))
                 | Some (Exited st G2 w2) \<Rightarrow> Some (Exited st G2 w2, tr @ [CLEAN_OLD, FILL, VERIFY])
                 | Some (Overrun G2 w2) \<Rightarrow> Some (Overrun G2 w2, tr @ [CLEAN_OLD, FILL, VERIFY]))
              else
                (if gopt_unlink_after G1
                 then main_loop n G1 (unlink_randfiles w1) (tr @ [CLEAN_OLD, FILL, CLEAN_AFTER])
                 else main_loop n G1 w1 (tr @ [CLEAN_OLD, FILL])))))"

text \<open>\<^verbatim>\<open>main\<close> after \<^verbatim>\<open>parse_commandline\<close>, which leaves the resolved options in the globals
  (a file size of 0 is replaced by 1024 there).\<close>

definition main :: "globals \<Rightarrow> world \<Rightarrow> (result \<times> phase list) option" where
  "main G w = main_loop (nat (gopt_repeat G)) G w []"

text \<open>The values of the globals at their initialisers, with the seed and the options
  that \<^verbatim>\<open>parse_commandline\<close> resolves (file size 1024 when none is given), and a world
  with an empty directory in which no call fails.\<close>

definition initial_globals :: "u32 \<Rightarrow> globals" where
  "initial_globals seed =
     \<lparr>g_seed = seed, gopt_readonly = False, gopt_unlink_immediate = False,
      gopt_unlink_after = False, gopt_skip_verify = False, gopt_file_size = 1024,
      gopt_file_limit = UINT_MAX, gopt_repeat = 1, g_last_filesize = UINT_MAX,
      g_filehandle = []\<rparr>"

definition fresh_world :: world where
  "fresh_world =
     \<lparr>dir = Map.empty, inodes = (\<lambda>ino. []), fdt = Map.empty, next_ino = 0, next_fd = 0,
      create_fails = [], write_results = [], read_fails = [], statvfs_result = None,
      stdout = []\<rparr>"

text \<open>The expected file count in the words of the specification: the free bytes divided by
  the file size in bytes, rounded up.\<close>

definition spec_expected_file_count :: "nat \<Rightarrow> nat \<Rightarrow> nat" where
  "spec_expected_file_count free_bytes size_mib =
     (free_bytes + size_mib * 2 ^ 20 - 1) div (size_mib * 2 ^ 20)"

text \<open>A world whose directory holds one file with the given name and bytes.\<close>

definition one_file_world :: "string \<Rightarrow> byte list \<Rightarrow> world" where
  "one_file_world name data =
     fresh_world\<lparr>dir := [name \<mapsto> 0], inodes := (\<lambda>ino. [])(0 := data), next_ino := 1\<rparr>"






definition verify_then_unlink :: globals where
  "verify_then_unlink = (initial_globals 42)\<lparr>gopt_readonly := True, gopt_unlink_after := True\<rparr>"

definition second_item_corrupted :: "byte list" where
  "second_item_corrupted = bytes_of_items [snd (lcg_random 43), 0]"

definition wrote :: "nat \<Rightarrow> nat \<Rightarrow> byte list \<Rightarrow> nat \<Rightarrow> world \<Rightarrow> world" where
  "wrote fd ino bs k w =
     w\<lparr>inodes := (inodes w)(ino := inodes w ino @ bs),
       fdt := (fdt w)(fd \<mapsto> (ino, length (inodes w ino) + length bs)),
       write_results := drop k (write_results w)\<rparr>"

definition created :: "string \<Rightarrow> world \<Rightarrow> world" where
  "created name w =
     w\<lparr>dir := (dir w)(name \<mapsto> next_ino w),
       inodes := (inodes w)(next_ino w := []),
       fdt := (fdt w)(next_fd w \<mapsto> (next_ino w, 0)),
       next_ino := Suc (next_ino w),
       next_fd := Suc (next_fd w),
       create_fails := tl (create_fails w)\<rparr>"

definition holds_stream :: "world \<Rightarrow> u32 \<Rightarrow> u32 \<Rightarrow> u32 \<Rightarrow> bool" where
  "holds_stream w seed fsize filenum \<longleftrightarrow>
     (\<exists>ino. dir w (filename_of filenum) = Some ino \<and>
            inodes w ino = stream_bytes (ucast (seed + (filenum + 1))) (unat fsize * block_items))"

text \<open>The world with the file offset of a descriptor set.\<close>

definition at_offset :: "nat \<Rightarrow> nat \<Rightarrow> nat \<Rightarrow> world \<Rightarrow> world" where
  "at_offset fd ino off w = w\<lparr>fdt := (fdt w)(fd \<mapsto> (ino, off))\<rparr>"

definition reads_whole_block :: "globals \<Rightarrow> u32 \<Rightarrow> u32 \<Rightarrow> nat \<Rightarrow> bool" where
  "reads_whole_block G efl filenum b \<longleftrightarrow>
     \<not> (filenum = efl \<and> g_last_filesize G \<noteq> UINT_MAX \<and> unat (g_last_filesize G) < b * sizeof_block)"

text \<open>The world after a file was opened by name, read through and closed by the verify
  path, and the line reporting it was printed.\<close>

definition verified_file :: "string \<Rightarrow> nat \<Rightarrow> world \<Rightarrow> world" where
  "verified_file name rtotal w =
     w\<lparr>fdt := (fdt w)(next_fd w := None), next_fd := Suc (next_fd w),
       stdout := stdout w @ [Read_data name rtotal]\<rparr>"


text \<open>The world after one \<^verbatim>\<open>open\<close> and \<^verbatim>\<open>close\<close> of the counting loop of
  \<^verbatim>\<open>read_randfiles\<close> on a file that exists.\<close>

definition probed :: "world \<Rightarrow> world" where
  "probed w = w\<lparr>fdt := (fdt w)(next_fd w := None), next_fd := Suc (next_fd w)\<rparr>"

text \<open>One file of 4096 blocks (4 GiB) with seed 42: \<^verbatim>\<open>-s 42 -S 4096 -f 1\<close>.\<close>

definition one_file_of_4096_blocks :: globals where
  "one_file_of_4096_blocks = (initial_globals 42)\<lparr>gopt_file_size := 4096, gopt_file_limit := 1\<rparr>"

text \<open>Files of 4097 blocks with seed 42 and no file limit (\<^verbatim>\<open>-s 42 -S 4097\<close>), on a disk
  that takes 4096 whole blocks, then 8 bytes, and then fails the next \<^verbatim>\<open>write\<close>.\<close>

definition files_of_4097_blocks :: globals where
  "files_of_4097_blocks = (initial_globals 42)\<lparr>gopt_file_size := 4097\<rparr>"

definition disk_full_after_4_gib :: world where
  "disk_full_after_4_gib = fresh_world\<lparr>write_results := replicate 4096 1048576 @ [8, - 1]\<rparr>"

section \<open>The generator: closed form and period\<close>

lemma gsum_add: "gsum a (j + k) = gsum a j + a ^ j * gsum a k"
  by (induction j) (simp_all add: algebra_simps)

lemma gsum_double: "gsum a (2 * j) = gsum a j * (1 + a ^ j)"
proof -
  have "2 * j = j + j" by simp
  then show ?thesis using gsum_add [of a j j] by (simp only: algebra_simps)
qed

lemma gsum_odd: "odd a \<Longrightarrow> odd (gsum a k) = odd k"
  by (induction k) simp_all

lemma pow_mod4: "a mod 4 = (1::nat) \<Longrightarrow> a ^ j mod 4 = 1"
proof (induction j)
  case 0 show ?case by simp
next
  case (Suc j)
  have "a ^ Suc j mod 4 = ((a mod 4) * (a ^ j mod 4)) mod 4"
    by (simp add: mod_mult_eq)
  with Suc show ?case by simp
qed

lemma one_plus_pow:
  assumes "a mod 4 = (1::nat)"
  shows "\<exists>t. odd t \<and> 1 + a ^ j = 2 * t"
proof -
  define n where "n = 1 + a ^ j"
  have "a ^ j mod 4 = 1" by (rule pow_mod4 [OF assms])
  then have "n mod 4 = 2" unfolding n_def by presburger
  then have "odd (n div 2) \<and> n = 2 * (n div 2)" by presburger
  then show ?thesis unfolding n_def by blast
qed

lemma pow2_dvd_odd_mult: "odd (t::nat) \<Longrightarrow> 2 ^ n dvd x * t \<Longrightarrow> 2 ^ n dvd x"
proof -
  assume "odd t" and d: "2 ^ n dvd x * t"
  then have "coprime ((2::nat) ^ n) t" by simp
  with d show ?thesis by (simp add: coprime_dvd_mult_left_iff)
qed

text \<open>For a multiplier congruent to 1 modulo 4 the geometric sum of \<open>k\<close> terms is divisible
  by a power of two only if \<open>k\<close> is.\<close>

lemma gsum_dvd: "a mod 4 = (1::nat) \<Longrightarrow> 2 ^ m dvd gsum a k \<Longrightarrow> 2 ^ m dvd k"
proof (induction m arbitrary: k)
  case 0 show ?case by simp
next
  case (Suc m)
  have oa: "odd a" using Suc.prems(1) by presburger
  have "2 dvd gsum a k" using Suc.prems(2) by (rule dvd_trans [rotated]) simp
  then have "even k" using gsum_odd [OF oa, of k] by simp
  then obtain j where k: "k = 2 * j" by (rule dvdE)
  obtain t where t: "odd t" "1 + a ^ j = 2 * t" using one_plus_pow [OF Suc.prems(1)] by blast
  have "gsum a k = 2 * (gsum a j * t)"
    unfolding k gsum_double t(2) by simp
  then have "2 * 2 ^ m dvd 2 * (gsum a j * t)"
    using Suc.prems(2) by simp
  then have "2 ^ m dvd gsum a j * t" by simp
  then have "2 ^ m dvd gsum a j" by (rule pow2_dvd_odd_mult [OF t(1)])
  then have "2 ^ m dvd j" by (rule Suc.IH [OF Suc.prems(1)])
  then show ?case by (simp add: k)
qed

lemma odd_unat: "odd (u::u64) \<Longrightarrow> odd (unat u)"
  by (metis even_of_nat_iff of_nat_unat ucast_id)

lemma odd_word_cancel:
  fixes x u :: u64
  assumes "odd u" "x * u = 0"
  shows "x = 0"
proof -
  have "(word_of_nat (unat x * unat u) :: u64) = 0"
    using assms(2) word_arith_nat_mult [of x u] by (simp only:)
  then have "(2::nat) ^ LENGTH(64) dvd unat x * unat u" by (simp only: word_of_nat_eq_0_iff)
  then have d: "(2::nat) ^ LENGTH(64) dvd unat x"
    by (rule pow2_dvd_odd_mult [OF odd_unat [OF assms(1)]])
  have "(word_of_nat (unat x) :: u64) = 0"
    using d by (simp only: word_of_nat_eq_0_iff)
  then show ?thesis by simp
qed

lemma lcg_random_fst_snd: "fst (lcg_random s) = snd (lcg_random s)"
  by (simp add: lcg_random_def Let_def)

lemma lcg_random_AC: "snd (lcg_random s) = lcg_A * s + lcg_C"
  by (simp add: lcg_random_def lcg_A_def lcg_C_def Let_def)

lemma lcg_random_pair: "lcg_random s = (snd (lcg_random s), snd (lcg_random s))"
  by (simp add: lcg_random_def Let_def)

lemma lcg_stream_Suc [simp]:
  "lcg_stream s (Suc k) = snd (lcg_random s) # lcg_stream (snd (lcg_random s)) k"
  by (simp add: lcg_random_def Let_def)

declare lcg_stream.simps(2) [simp del]

lemma length_lcg_stream: "length (lcg_stream s k) = k"
  by (induction k arbitrary: s) simp_all

lemma lcg_state_Suc: "lcg_state s (Suc k) = snd (lcg_random (lcg_state s k))"
  by (induction k arbitrary: s) simp_all

lemma lcg_state_add: "lcg_state s (j + k) = lcg_state (lcg_state s j) k"
  by (induction j arbitrary: s) simp_all

lemma lcg_stream_add: "lcg_stream s (j + k) = lcg_stream s j @ lcg_stream (lcg_state s j) k"
  by (induction j arbitrary: s) simp_all

lemma fill_block_eq: "fill_block k s = (lcg_stream s k, lcg_state s k)"
  by (induction k arbitrary: s) (simp_all add: lcg_random_def Let_def)

lemma check_items_stream: "check_items (lcg_stream s k) i s = Inr (lcg_state s k)"
  by (induction k arbitrary: s i) (simp_all add: lcg_random_def Let_def)

lemma check_items_Inr:
  "check_items xs i s = Inr r \<Longrightarrow> xs = lcg_stream s (length xs) \<and> r = lcg_state s (length xs)"
proof (induction xs arbitrary: i s)
  case Nil
  then show ?case by simp
next
  case (Cons x xs)
  from Cons.prems have x: "x = snd (lcg_random s)"
    and rest: "check_items xs (Suc i) (snd (lcg_random s)) = Inr r"
    by (auto simp add: lcg_random_def Let_def split: if_splits)
  from Cons.IH [OF rest] show ?case
    using x by simp
qed

lemma check_items_Inl:
  "check_items xs i s = Inl m \<Longrightarrow>
     \<exists>j. m = i + j \<and> j < length xs \<and> xs ! j \<noteq> lcg_stream s (length xs) ! j
         \<and> take j xs = lcg_stream s j"
proof (induction xs arbitrary: i s)
  case Nil
  then show ?case by simp
next
  case (Cons x xs)
  show ?case
  proof (cases "x = snd (lcg_random s)")
    case False
    with Cons.prems have "m = i" by (simp add: lcg_random_def Let_def)
    with False show ?thesis
      by (intro exI [of _ 0]) simp
  next
    case True
    with Cons.prems have "check_items xs (Suc i) (snd (lcg_random s)) = Inl m"
      by (simp add: lcg_random_def Let_def)
    from Cons.IH [OF this] obtain j where j: "m = Suc i + j" "j < length xs"
      "xs ! j \<noteq> lcg_stream (snd (lcg_random s)) (length xs) ! j"
      "take j xs = lcg_stream (snd (lcg_random s)) j" by blast
    with True show ?thesis
      by (intro exI [of _ "Suc j"]) simp
  qed
qed

lemma lcg_state_closed:
  "lcg_state s k - s = of_nat (gsum (unat lcg_A) k) * ((lcg_A - 1) * s + lcg_C)"
proof (induction k)
  case 0 show ?case by simp
next
  case (Suc k)
  have "lcg_state s (Suc k) - s = lcg_A * (lcg_state s k - s) + ((lcg_A - 1) * s + lcg_C)"
    by (simp only: lcg_state_Suc lcg_random_AC) (simp add: algebra_simps)
  also have "\<dots> = (1 + lcg_A * of_nat (gsum (unat lcg_A) k)) * ((lcg_A - 1) * s + lcg_C)"
    unfolding Suc.IH by (simp add: algebra_simps)
  also have "1 + lcg_A * of_nat (gsum (unat lcg_A) k) = of_nat (gsum (unat lcg_A) (Suc k))"
    by simp
  finally show ?case .
qed

lemma lcg_unit_odd: "odd ((lcg_A - 1) * s + lcg_C)"
  by (simp add: lcg_A_def lcg_C_def)

lemma lcg_A_mod4: "unat lcg_A mod 4 = 1"
  by (simp add: lcg_A_def)

text \<open>The generator has full period: the state does not come back to its start before
  \<open>2^64\<close> calls.\<close>

lemma lcg_state_ne:
  assumes "0 < k" "k < 2 ^ 64"
  shows "lcg_state s k \<noteq> s"
proof
  assume "lcg_state s k = s"
  then have z: "(of_nat (gsum (unat lcg_A) k) :: u64) * ((lcg_A - 1) * s + lcg_C) = 0"
    using lcg_state_closed [of s k] by simp
  have "(of_nat (gsum (unat lcg_A) k) :: u64) = 0"
    using lcg_unit_odd z by (rule odd_word_cancel)
  then have "(2::nat) ^ LENGTH(64) dvd gsum (unat lcg_A) k"
    by (simp only: word_of_nat_eq_0_iff)
  then have "(2::nat) ^ LENGTH(64) dvd k"
    by (rule gsum_dvd [OF lcg_A_mod4])
  then have "(2::nat) ^ 64 \<le> k" using assms(1) by (simp add: dvd_imp_le)
  with assms(2) show False by simp
qed

lemma lcg_stream_nth: "i < k \<Longrightarrow> lcg_stream s k ! i = lcg_state s (Suc i)"
proof (induction k arbitrary: s i)
  case 0 then show ?case by simp
next
  case (Suc k)
  show ?case
  proof (cases i)
    case 0 then show ?thesis by simp
  next
    case (Suc j)
    then show ?thesis using Suc.prems Suc.IH [of j "snd (lcg_random s)"] by simp
  qed
qed

lemma seed_not_in_stream:
  assumes "k < 2 ^ 64"
  shows "s \<notin> set (lcg_stream s k)"
proof
  assume "s \<in> set (lcg_stream s k)"
  then obtain i where i: "i < k" "lcg_stream s k ! i = s"
    by (auto simp add: in_set_conv_nth length_lcg_stream)
  then have "lcg_state s (Suc i) = s" by (simp add: lcg_stream_nth)
  moreover have "Suc i < 2 ^ 64" using i(1) assms by simp
  ultimately show False using lcg_state_ne [of "Suc i" s] by simp
qed

section \<open>Items and bytes\<close>

lemma length_item_bytes: "length (item_bytes x) = 8"
  by (simp add: item_bytes_def)

lemma take_bit_split8:
  fixes y :: u64
  shows "ucast (ucast y :: byte) OR push_bit 8 (take_bit n (drop_bit 8 y)) = take_bit (8 + n) y"
  by (rule bit_eqI) (auto simp add: bit_simps)

lemma item_of_bytes_le:
  "item_of_bytes (map (\<lambda>j. ucast (drop_bit (8 * j) x)) [i..<i + k]) = take_bit (8 * k) (drop_bit (8 * i) x)"
proof (induction k arbitrary: i)
  case 0
  show ?case by simp
next
  case (Suc k)
  have up: "[i..<i + Suc k] = i # [Suc i..<Suc i + k]"
    by (simp add: upt_rec)
  have d: "drop_bit (8 * Suc i) x = drop_bit 8 (drop_bit (8 * i) x)"
    by (simp add: add.commute)
  have "item_of_bytes (map (\<lambda>j. ucast (drop_bit (8 * j) x)) [i..<i + Suc k])
        = ucast (ucast (drop_bit (8 * i) x) :: byte) OR push_bit 8 (take_bit (8 * k) (drop_bit (8 * Suc i) x))"
    unfolding up using Suc.IH [of "Suc i"] by (simp only: list.map item_of_bytes.simps)
  also have "\<dots> = take_bit (8 + 8 * k) (drop_bit (8 * i) x)"
    unfolding d by (rule take_bit_split8)
  finally show ?case by simp
qed

lemma item_of_bytes_item_bytes: "item_of_bytes (item_bytes x) = x"
  using item_of_bytes_le [of x 0 8] take_bit_length_eq [of x] by (simp add: item_bytes_def)

lemma length_bytes_of_items: "length (bytes_of_items xs) = 8 * length xs"
  by (induction xs) (simp_all add: bytes_of_items_def length_item_bytes)

lemma bytes_of_items_Nil: "bytes_of_items [] = []"
  by (simp add: bytes_of_items_def)

lemma bytes_of_items_Cons: "bytes_of_items (x # xs) = item_bytes x @ bytes_of_items xs"
  by (simp add: bytes_of_items_def)

lemma bytes_of_items_append: "bytes_of_items (xs @ ys) = bytes_of_items xs @ bytes_of_items ys"
  by (simp add: bytes_of_items_def)

lemma items_of_bytes_prefix:
  "n \<le> length xs \<Longrightarrow> items_of_bytes n (bytes_of_items xs @ rest) = take n xs"
proof (induction n arbitrary: xs)
  case 0
  show ?case by simp
next
  case (Suc n)
  then obtain y ys where xs: "xs = y # ys" by (cases xs) auto
  with Suc.prems have "n \<le> length ys" by simp
  from Suc.IH [OF this] show ?case
    by (simp add: xs bytes_of_items_Cons length_item_bytes item_of_bytes_item_bytes)
qed

lemma items_of_bytes_take:
  assumes "m \<le> 8 * length xs"
  shows "items_of_bytes (m div 8) (take m (bytes_of_items xs)) = take (m div 8) xs"
proof -
  let ?n = "m div 8"
  have n: "?n \<le> length xs" using assms by simp
  have split: "xs = take ?n xs @ drop ?n xs" by simp
  have "bytes_of_items xs = bytes_of_items (take ?n xs) @ bytes_of_items (drop ?n xs)"
    by (subst split) (rule bytes_of_items_append)
  moreover have "length (bytes_of_items (take ?n xs)) = 8 * ?n"
    using n by (simp add: length_bytes_of_items)
  moreover have "8 * ?n \<le> m" by simp
  ultimately have "take m (bytes_of_items xs)
      = bytes_of_items (take ?n xs) @ take (m - 8 * ?n) (bytes_of_items (drop ?n xs))"
    by simp
  then show ?thesis
    using items_of_bytes_prefix [of ?n "take ?n xs"] n by simp
qed

lemma take_bytes_of_items: "take (8 * m) (bytes_of_items xs) = bytes_of_items (take m xs)"
proof (induction xs arbitrary: m)
  case Nil
  show ?case by (simp add: bytes_of_items_Nil)
next
  case (Cons x xs)
  show ?case
  proof (cases m)
    case 0
    then show ?thesis by (simp add: bytes_of_items_Nil)
  next
    case (Suc k)
    then show ?thesis
      using Cons.IH [of k] by (simp add: bytes_of_items_Cons length_item_bytes)
  qed
qed

lemma drop_bytes_of_items: "drop (8 * m) (bytes_of_items xs) = bytes_of_items (drop m xs)"
proof (induction xs arbitrary: m)
  case Nil
  show ?case by (simp add: bytes_of_items_Nil)
next
  case (Cons x xs)
  show ?case
  proof (cases m)
    case 0
    then show ?thesis by simp
  next
    case (Suc k)
    then show ?thesis
      using Cons.IH [of k] by (simp add: bytes_of_items_Cons length_item_bytes)
  qed
qed

lemma length_stream_bytes: "length (stream_bytes s n) = 8 * n"
  by (simp add: stream_bytes_def length_bytes_of_items length_lcg_stream)

lemma stream_bytes_add:
  "stream_bytes s (j + k) = stream_bytes s j @ stream_bytes (lcg_state s j) k"
  by (simp add: stream_bytes_def lcg_stream_add bytes_of_items_append)

section \<open>Claims about the generator and the expected file count\<close>

text \<open>
  C1. One call of the generator replaces the state \<open>s\<close> by \<open>(A*s + C) mod 2^64\<close> with
  \<open>A = 0x27BB2EE687B0B0FD\<close> and \<open>C = 0xB504F32D\<close> and returns the new state. Drawing \<open>k\<close>
  items from a state (the fill loop of the write path) and drawing them again from the same
  state (the comparison loop of the verify path) gives the same items one by one; this
  holds for every state, in particular for \<open>S + n\<close>. The state the generator starts from is
  not among the items drawn, for any number of items below the period \<open>2^64\<close> (a file holds
  fewer than \<open>2^49\<close>).
\<close>

theorem lcg_random_recurrence_and_stream:
  "fst (lcg_random s) = snd (lcg_random s)
   \<and> unat (snd (lcg_random s)) = (0x27BB2EE687B0B0FD * unat s + 0xB504F32D) mod 2 ^ 64
   \<and> fst (fill_block k s) = lcg_stream s k
   \<and> check_items (fst (fill_block k s)) 0 s = Inr (snd (fill_block k s))
   \<and> (k < 2 ^ 64 \<longrightarrow> s \<notin> set (fst (fill_block k s)))"
proof -
  have "unat (snd (lcg_random s)) = (0x27BB2EE687B0B0FD * unat s + 0xB504F32D) mod 2 ^ 64"
    by (simp add: lcg_random_def Let_def unat_word_ariths mod_simps)
  then show ?thesis
    by (simp add: lcg_random_fst_snd fill_block_eq check_items_stream seed_not_in_stream)
qed

theorem lcg_random_recurrence_and_stream_witness:
  "(3::nat) < 2 ^ 64 \<and> (43::u64) \<notin> set (fst (fill_block 3 43))
   \<and> check_items (fst (fill_block 3 43)) 0 43 = Inr (snd (fill_block 3 43))"
proof -
  have "(3::nat) < 2 ^ 64" by simp
  with lcg_random_recurrence_and_stream [of 43 3] show ?thesis by blast
qed

text \<open>
  C8. With no file limit configured and 1.5 GiB reported by the free-space query
  (393216 blocks of 4096 bytes), a file size of 1024 MiB gives an expected file count of 1,
  where the free bytes divided by the file size in bytes and rounded up are 2: the program
  adds the file size in MiB, not in bytes, before dividing.
\<close>

theorem expected_file_limit_rounds_down:
  "write_expected_file_limit (initial_globals 42)
       (fresh_world\<lparr>statvfs_result := Some (393216, 4096)\<rparr>) = 1
   \<and> spec_expected_file_count (393216 * 4096) 1024 = 2"
  by (simp add: write_expected_file_limit_def expected_from_free_def initial_globals_def
        fresh_world_def spec_expected_file_count_def)


section \<open>Evaluation of file names and small worlds\<close>

lemma dec_digits_small: "n < 10 \<Longrightarrow> dec_digits n = [digit_char n]"
  by (subst dec_digits.simps) simp

lemma replicate_7: "replicate 7 c = [c, c, c, c, c, c, c]"
  by (simp add: eval_nat_numeral)

lemma filename_of_small:
  "unat filenum < 10 \<Longrightarrow>
     filename_of filenum = ''random-0000000'' @ [digit_char (unat filenum)]"
  by (simp add: filename_of_def dec_digits_small replicate_7)

lemma filename_of_0: "filename_of 0 = ''random-00000000''"
  by (simp add: filename_of_small digit_char_def)

lemma filename_of_1: "filename_of 1 = ''random-00000001''"
  by (simp add: filename_of_small digit_char_def)

lemma filename_of_2: "filename_of 2 = ''random-00000002''"
  by (simp add: filename_of_small digit_char_def)


section \<open>The verify path, step by step\<close>

lemma length_items_of_bytes: "length (items_of_bytes n bs) = n"
  by (induction n arbitrary: bs) simp_all

lemma read_files_open_fails:
  assumes "\<not> gopt_unlink_immediate G" and "dir w (filename_of filenum) = None"
  shows "read_files G efl filenum w
         = Some (read_finish G efl (print (Error_opening_next_file (filename_of filenum)) w))"
  using assms by (subst read_files.simps) (simp add: open_next_def os_open_rdonly_def)

lemma read_files_blocks_exit:
  assumes "open_next G filenum w0 = Open_ok fd w1"
    and "read_blocks G efl (filenum + 1) (filename_of filenum) fd 0
           (ucast (g_seed G + (filenum + 1))) 0 w1 = Blocks_exit G1 w2"
  shows "read_files G efl filenum w0 = Some (Exited EXIT_FAILURE G1 w2)"
  using assms by (subst read_files.simps) simp


lemma read_files_blocks_next:
  assumes "open_next G filenum w0 = Open_ok fd w1"
    and "read_blocks G efl (filenum + 1) (filename_of filenum) fd 0
           (ucast (g_seed G + (filenum + 1))) 0 w1 = Blocks_end rtotal False w2"
  shows "read_files G efl filenum w0
         = read_files G efl (filenum + 1) (print (Read_data (filename_of filenum) rtotal) (os_close fd w2))"
  using assms by (subst read_files.simps) simp

lemma read_blocks_eof:
  assumes "blocknum < gopt_file_size G"
    and "os_read fd (unat (read_size_of G efl filenum blocknum)) w = (Some [], w')"
  shows "read_blocks G efl filenum filename fd blocknum rnd rtotal w =
           (if filenum \<noteq> efl \<or>
               (g_last_filesize G \<noteq> UINT_MAX \<and> (of_nat rtotal :: u64) \<noteq> ucast (g_last_filesize G))
            then Blocks_exit G (print (Unexpectedly_short_file filename (g_last_filesize G) rtotal) w')
            else Blocks_end rtotal True w')"
  using assms by (subst read_blocks.simps) (simp add: Let_def)

lemma read_blocks_mismatch:
  assumes "blocknum < gopt_file_size G"
    and "os_read fd (unat (read_size_of G efl filenum blocknum)) w = (Some bs, w')"
    and "bs \<noteq> []" and "length bs \<le> sizeof_block"
    and "check_items (items_of_bytes (length bs div sizeof_item_type) bs) 0 rnd = Inl i"
  shows "read_blocks G efl filenum filename fd blocknum rnd rtotal w =
           Blocks_exit (G\<lparr>gopt_unlink_after := False\<rparr>)
             (print (Mismatch filename blocknum (of_nat (i * sizeof_int))) w')"
  using assms by (subst read_blocks.simps) (simp add: Let_def)

lemma read_blocks_match:
  assumes "blocknum < gopt_file_size G"
    and "os_read fd (unat (read_size_of G efl filenum blocknum)) w = (Some bs, w')"
    and "bs \<noteq> []" and "length bs \<le> sizeof_block"
    and "check_items (items_of_bytes (length bs div sizeof_item_type) bs) 0 rnd = Inr rnd1"
  shows "read_blocks G efl filenum filename fd blocknum rnd rtotal w =
           read_blocks G efl filenum filename fd (blocknum + 1) rnd1 (rtotal + length bs) w'"
  using assms by (subst read_blocks.simps) (simp add: Let_def)

lemma read_blocks_end:
  assumes "\<not> blocknum < gopt_file_size G"
  shows "read_blocks G efl filenum filename fd blocknum rnd rtotal w = Blocks_end rtotal False w"
  using assms by (subst read_blocks.simps) (simp add: Let_def)


lemma open_next_one_file:
  "open_next (initial_globals seed) 0 (one_file_world (filename_of 0) data)
     = Open_ok 0 ((one_file_world (filename_of 0) data)\<lparr>fdt := [0 \<mapsto> (0, 0)], next_fd := Suc 0\<rparr>)"
  by (simp add: open_next_def initial_globals_def one_file_world_def fresh_world_def
        os_open_rdonly_def new_fd_def)

lemma os_read_one_file:
  "os_read 0 n ((one_file_world name data)\<lparr>fdt := [0 \<mapsto> (0, 0)], next_fd := Suc 0\<rparr>)
     = (Some (take n data),
        (one_file_world name data)\<lparr>fdt := [0 \<mapsto> (0, length (take n data))], next_fd := Suc 0\<rparr>)"
  by (simp add: os_read_def one_file_world_def fresh_world_def)



lemma items_of_bytes_exact: "items_of_bytes (length xs) (bytes_of_items xs) = xs"
  using items_of_bytes_prefix [of "length xs" xs "[]"] by simp

text \<open>
  C10. Whenever the verify run has reached a block and the items read differ from the
  regenerated stream first at item index \<open>i\<close> of the block, the offset printed is
  \<open>i * sizeof(int) = 4 * i\<close>, while the item lies at byte \<open>8 * i\<close> of the block: twice the
  printed value. The run exits with failure and the unlink-after option is cleared.
\<close>

theorem mismatch_offset_is_four_times_item_index:
  assumes "open_next G filenum w0 = Open_ok fd w1"
    and "read_blocks G efl (filenum + 1) (filename_of filenum) fd 0
           (ucast (g_seed G + (filenum + 1))) 0 w1
         = read_blocks G efl (filenum + 1) (filename_of filenum) fd blocknum rnd rtotal w"
    and "blocknum < gopt_file_size G"
    and "os_read fd (unat (read_size_of G efl (filenum + 1) blocknum)) w = (Some bs, w')"
    and "bs \<noteq> []" and "length bs \<le> sizeof_block"
    and "check_items (items_of_bytes (length bs div sizeof_item_type) bs) 0 rnd = Inl i"
  shows "read_files G efl filenum w0 =
           Some (Exited EXIT_FAILURE (G\<lparr>gopt_unlink_after := False\<rparr>)
                   (print (Mismatch (filename_of filenum) blocknum (of_nat (4 * i))) w'))
         \<and> unat (of_nat (4 * i) :: u64) = 4 * i
         \<and> 2 * (4 * i) = sizeof_item_type * i
         \<and> i < length bs div sizeof_item_type
         \<and> items_of_bytes (length bs div sizeof_item_type) bs ! i \<noteq> lcg_stream rnd (Suc i) ! i
         \<and> take i (items_of_bytes (length bs div sizeof_item_type) bs) = lcg_stream rnd i"
proof -
  let ?n = "length bs div sizeof_item_type"
  let ?items = "items_of_bytes ?n bs"
  from check_items_Inl [OF assms(7)] obtain j where j: "i = 0 + j" "j < length ?items"
    "?items ! j \<noteq> lcg_stream rnd (length ?items) ! j" "take j ?items = lcg_stream rnd j"
    by blast
  have i: "i < ?n" using j(1,2) by (simp add: length_items_of_bytes)
  have "lcg_stream rnd ?n = lcg_stream rnd (Suc i) @ lcg_stream (lcg_state rnd (Suc i)) (?n - Suc i)"
    using i lcg_stream_add [of rnd "Suc i" "?n - Suc i"] by simp
  then have "lcg_stream rnd ?n ! i = lcg_stream rnd (Suc i) ! i"
    by (simp add: nth_append length_lcg_stream del: lcg_stream_Suc)
  then have ne: "?items ! i \<noteq> lcg_stream rnd (Suc i) ! i"
    using j(1,3) by (simp add: length_items_of_bytes del: lcg_stream_Suc)
  have "?n \<le> sizeof_block" using assms(6) by (simp add: sizeof_item_type_def)
  then have "4 * i < 2 ^ LENGTH(64)" using i by (simp add: sizeof_block_def)
  then have "(4 * i) mod 2 ^ LENGTH(64) = 4 * i" by (rule mod_less)
  then have u: "unat (of_nat (4 * i) :: u64) = 4 * i"
    by (simp only: unat_of_nat)
  have "read_blocks G efl (filenum + 1) (filename_of filenum) fd blocknum rnd rtotal w
      = Blocks_exit (G\<lparr>gopt_unlink_after := False\<rparr>)
          (print (Mismatch (filename_of filenum) blocknum (of_nat (4 * i))) w')"
    using read_blocks_mismatch [OF assms(3,4,5,6,7)] by (simp add: sizeof_int_def mult.commute)
  then have "read_files G efl filenum w0 =
           Some (Exited EXIT_FAILURE (G\<lparr>gopt_unlink_after := False\<rparr>)
                   (print (Mismatch (filename_of filenum) blocknum (of_nat (4 * i))) w'))"
    by (intro read_files_blocks_exit [OF assms(1)]) (simp only: assms(2))
  with u i ne j(1,4) show ?thesis by (simp add: sizeof_item_type_def del: lcg_stream_Suc)
qed


lemma check_items_two_second_wrong:
  "check_items [snd (lcg_random 43), 0] 0 43 = Inl 1"
  by (simp add: lcg_random_def Let_def)

theorem mismatch_offset_is_four_times_item_index_witness:
  "\<exists>w'. read_files (initial_globals 42) 1 0
            (one_file_world (filename_of 0) (bytes_of_items [snd (lcg_random 43), 0]))
          = Some (Exited EXIT_FAILURE ((initial_globals 42)\<lparr>gopt_unlink_after := False\<rparr>) w')
        \<and> stdout w' = [Mismatch ''random-00000000'' 0 4]"
proof -
  let ?G = "initial_globals 42"
  let ?data = "bytes_of_items [snd (lcg_random 43), 0]"
  let ?w0 = "one_file_world (filename_of 0) ?data"
  let ?w1 = "?w0\<lparr>fdt := [0 \<mapsto> (0, 0)], next_fd := Suc 0\<rparr>"
  let ?w2 = "?w0\<lparr>fdt := [0 \<mapsto> (0, 16)], next_fd := Suc 0\<rparr>"
  have len: "length ?data = 16" by (simp add: length_bytes_of_items)
  have o: "open_next ?G 0 ?w0 = Open_ok 0 ?w1" by (rule open_next_one_file)
  have b: "(0::u32) < gopt_file_size ?G" by (simp add: initial_globals_def)
  have sz: "unat (read_size_of ?G 1 (0 + 1) 0) = 1048576"
    by (simp add: read_size_of_def initial_globals_def sizeof_block_def)
  have r: "os_read 0 (unat (read_size_of ?G 1 (0 + 1) 0)) ?w1 = (Some ?data, ?w2)"
    unfolding sz by (simp add: os_read_one_file len)
  have ne: "?data \<noteq> []" using len by auto
  have le: "length ?data \<le> sizeof_block" by (simp add: len sizeof_block_def)
  have "length ?data div sizeof_item_type = length [snd (lcg_random 43), 0::u64]"
    by (simp add: len sizeof_item_type_def)
  then have it: "items_of_bytes (length ?data div sizeof_item_type) ?data = [snd (lcg_random 43), 0]"
    by (simp only: items_of_bytes_exact)
  have c: "check_items (items_of_bytes (length ?data div sizeof_item_type) ?data) 0
              (ucast ((42::u32) + (0 + 1))) = Inl 1"
    unfolding it using check_items_two_second_wrong by simp
  have g: "ucast (g_seed ?G + (0 + 1)) = (ucast ((42::u32) + (0 + 1)) :: u64)"
    by (simp add: initial_globals_def)
  have "read_files ?G 1 0 ?w0 =
      Some (Exited EXIT_FAILURE (?G\<lparr>gopt_unlink_after := False\<rparr>)
              (print (Mismatch (filename_of 0) 0 (of_nat (4 * 1))) ?w2))"
    using mismatch_offset_is_four_times_item_index [OF o refl b r ne le, of 1] c g
    by simp
  then show ?thesis
    by (simp add: print_def one_file_world_def fresh_world_def filename_of_0)
qed

lemma fresh_world_fields [simp]:
  "dir fresh_world = Map.empty" "inodes fresh_world = (\<lambda>ino. [])" "fdt fresh_world = Map.empty"
  "next_ino fresh_world = 0" "next_fd fresh_world = 0" "create_fails fresh_world = []"
  "write_results fresh_world = []" "read_fails fresh_world = []"
  "statvfs_result fresh_world = None" "stdout fresh_world = []"
  by (simp_all add: fresh_world_def)

lemma initial_globals_fields [simp]:
  "g_seed (initial_globals seed) = seed" "gopt_readonly (initial_globals seed) = False"
  "gopt_unlink_immediate (initial_globals seed) = False"
  "gopt_unlink_after (initial_globals seed) = False"
  "gopt_skip_verify (initial_globals seed) = False"
  "gopt_file_size (initial_globals seed) = 1024"
  "gopt_file_limit (initial_globals seed) = UINT_MAX"
  "gopt_repeat (initial_globals seed) = 1"
  "g_last_filesize (initial_globals seed) = UINT_MAX"
  "g_filehandle (initial_globals seed) = []"
  by (simp_all add: initial_globals_def)

text \<open>
  C9, as amended. Without the immediate-unlink policy, a failure to open the file with
  number \<open>filenum\<close> ends the loop over the files as the normal end of the sequence, for
  every \<open>filenum\<close>, the first one included: the error line is printed, then the line
  reporting success, and the phase returns.
\<close>

theorem open_failure_ends_read_loop:
  assumes "\<not> gopt_unlink_immediate G" and "dir w (filename_of filenum) = None"
  shows "read_files G efl filenum w
         = Some (Returned G
             (print (Successfully_verified efl (g_seed G))
                (print (Error_opening_next_file (filename_of filenum)) w)))"
  using read_files_open_fails [OF assms] by (simp add: read_finish_def)

theorem open_failure_ends_read_loop_witness:
  "read_files (initial_globals 42) 2 2 fresh_world
     = Some (Returned (initial_globals 42)
          (fresh_world\<lparr>stdout := [Error_opening_next_file ''random-00000002'',
                                  Successfully_verified 2 42]\<rparr>))"
proof -
  have "\<not> gopt_unlink_immediate (initial_globals 42)" by simp
  moreover have "dir fresh_world (filename_of 2) = None" by simp
  ultimately show ?thesis
    using open_failure_ends_read_loop [of "initial_globals 42" fresh_world 2 2]
    by (simp add: print_def filename_of_2)
qed

lemma probe_files_missing:
  "dir w (filename_of efl) = None \<Longrightarrow> probe_files efl w = Some (efl, w)"
  by (subst probe_files.simps) (simp add: os_open_rdonly_def)

text \<open>
  C9, as stated, fails at the first file: in an empty directory the verify phase does not
  signal that no data exists; it prints the same error line as for any later file,
  reports success for 0 files and returns.
\<close>

theorem first_file_missing_is_normal_end:
  "read_randfiles (initial_globals 42) fresh_world
     = Some (Returned (initial_globals 42)
          (fresh_world\<lparr>stdout := [Verifying 0 42, Error_opening_next_file ''random-00000000'',
                                  Successfully_verified 0 42]\<rparr>))"
proof -
  have p: "probe_files 0 fresh_world = Some (0, fresh_world)"
    by (rule probe_files_missing) simp
  have "read_files (initial_globals 42) 0 0 (print (Verifying 0 42) fresh_world)
      = Some (read_finish (initial_globals 42) 0
          (print (Error_opening_next_file (filename_of 0)) (print (Verifying 0 42) fresh_world)))"
    by (rule read_files_open_fails) (simp_all add: print_def)
  then show ?thesis
    by (simp add: read_randfiles_def p read_finish_def print_def filename_of_0)
qed


section \<open>The order of the phases\<close>






lemma write_files_stop:
  "dn \<or> \<not> filenum < gopt_file_limit G \<Longrightarrow> write_files G efl filenum dn w = (G, w)"
  by (subst write_files.simps) auto


lemma write_files_step:
  "\<not> dn \<Longrightarrow> filenum < gopt_file_limit G \<Longrightarrow> os_open_creat (filename_of filenum) w = (Some fd, w1) \<Longrightarrow>
     write_files G efl filenum dn w
       = write_files (fst (write_one_file G efl filenum fd dn w1)) efl (filenum + 1)
           (fst (snd (write_one_file G efl filenum fd dn w1)))
           (snd (snd (write_one_file G efl filenum fd dn w1)))"
  by (subst write_files.simps) (simp add: Let_def)









lemma main_loop_readonly:
  "gopt_readonly G \<Longrightarrow>
     main_loop (Suc n) G w tr =
       (case read_randfiles G w of
          None \<Rightarrow> None
        | Some (Returned G1 w1) \<Rightarrow>
            (if gopt_unlink_after G1
             then main_loop n G1 (unlink_randfiles w1) (tr @ [VERIFY, CLEAN_AFTER])
             else main_loop n G1 w1 (tr @ [VERIFY]))
        | Some (Exited st G1 w1) \<Rightarrow> Some (Exited st G1 w1, tr @ [VERIFY])
        | Some (Overrun G1 w1) \<Rightarrow> Some (Overrun G1 w1, tr @ [VERIFY]))"
  by simp


lemma main_loop_fill_verify:
  "\<not> gopt_readonly G \<Longrightarrow> write_randfiles G (unlink_randfiles w) = (G1, w1) \<Longrightarrow>
   \<not> gopt_skip_verify G1 \<Longrightarrow>
     main_loop (Suc n) G w tr =
       (case read_randfiles G1 w1 of
          None \<Rightarrow> None
        | Some (Returned G2 w2) \<Rightarrow>
            (if gopt_unlink_after G2
             then main_loop n G2 (unlink_randfiles w2) (tr @ [CLEAN_OLD, FILL, VERIFY, CLEAN_AFTER])
             else main_loop n G2 w2 (tr @ [CLEAN_OLD, FILL, VERIFY]))
        | Some (Exited st G2 w2) \<Rightarrow> Some (Exited st G2 w2, tr @ [CLEAN_OLD, FILL, VERIFY])
        | Some (Overrun G2 w2) \<Rightarrow> Some (Overrun G2 w2, tr @ [CLEAN_OLD, FILL, VERIFY]))"
  by simp

declare main_loop.simps(2) [simp del]






lemma unlink_randfiles_no_files:
  "dir w (filename_of 0) = None \<Longrightarrow> unlink_randfiles w = w"
  by (simp add: unlink_randfiles_def unlink_loop.simps [of 0] os_unlink_def UINT_MAX_def)



lemma print_dir [simp]: "dir (print m w) = dir w"
  by (simp add: print_def)




section \<open>A mismatch report, evaluated\<close>

lemma length_second_item_corrupted: "length second_item_corrupted = 16"
  by (simp add: second_item_corrupted_def length_bytes_of_items)

lemma probe_files_one_file:
  "probe_files 0 (one_file_world (filename_of 0) data)
     = Some (1, (one_file_world (filename_of 0) data)\<lparr>fdt := Map.empty, next_fd := Suc 0\<rparr>)"
proof -
  let ?w = "one_file_world (filename_of 0) data"
  have "probe_files 0 ?w = probe_files (0 + 1) (?w\<lparr>fdt := Map.empty, next_fd := Suc 0\<rparr>)"
    by (subst probe_files.simps)
       (simp add: os_open_rdonly_def new_fd_def os_close_def one_file_world_def fresh_world_def)
  also have "\<dots> = Some (0 + 1, ?w\<lparr>fdt := Map.empty, next_fd := Suc 0\<rparr>)"
    by (rule probe_files_missing) (simp add: one_file_world_def filename_of_0 filename_of_1)
  finally show ?thesis by simp
qed

text \<open>
  C5. A read-only run with the unlink-after option on a directory whose only file has a
  wrong second item: the first differing word is reported with the file name and block 0,
  the run exits with failure without a clean-after phase, the unlink-after option is
  cleared and the file is still in the directory. The offset reported is 4, while the
  differing word starts at byte 8 of the block: the first 8 bytes of the file are the first
  item of the stream, and the 8 bytes from byte 8 on are not the second.
\<close>

theorem mismatch_report_gives_half_the_byte_offset:
  "\<exists>w'. main verify_then_unlink (one_file_world (filename_of 0) second_item_corrupted)
          = Some (Exited EXIT_FAILURE (verify_then_unlink\<lparr>gopt_unlink_after := False\<rparr>) w', [VERIFY])
        \<and> stdout w' = [Verifying 1 42, Mismatch ''random-00000000'' 0 4]
        \<and> dir w' ''random-00000000'' = Some 0
        \<and> inodes w' 0 = second_item_corrupted
        \<and> take 8 second_item_corrupted = item_bytes (snd (lcg_random 43))
        \<and> item_of_bytes (take 8 (drop 8 second_item_corrupted))
            \<noteq> snd (lcg_random (snd (lcg_random 43)))"
proof -
  let ?G = verify_then_unlink
  let ?data = second_item_corrupted
  let ?w0 = "one_file_world (filename_of 0) ?data"
  let ?wp = "print (Verifying 1 (g_seed ?G)) (?w0\<lparr>fdt := Map.empty, next_fd := Suc 0\<rparr>)"
  let ?w1 = "?wp\<lparr>fdt := [Suc 0 \<mapsto> (0, 0)], next_fd := Suc (Suc 0)\<rparr>"
  let ?w2 = "?wp\<lparr>fdt := [Suc 0 \<mapsto> (0, 16)], next_fd := Suc (Suc 0)\<rparr>"
  have im: "\<not> gopt_unlink_immediate ?G" and ro: "gopt_readonly ?G" and seed: "g_seed ?G = 42"
    and k: "gopt_file_size ?G = 1024" and mk: "g_last_filesize ?G = UINT_MAX"
    and rp: "nat (gopt_repeat ?G) = Suc 0"
    by (simp_all add: verify_then_unlink_def)
  have o: "open_next ?G 0 ?wp = Open_ok (Suc 0) ?w1"
    using im by (simp add: open_next_def os_open_rdonly_def new_fd_def print_def one_file_world_def
          fresh_world_def)
  have sz: "unat (read_size_of ?G 1 (0 + 1) 0) = 1048576"
    by (simp add: read_size_of_def mk sizeof_block_def)
  have r: "os_read (Suc 0) (unat (read_size_of ?G 1 (0 + 1) 0)) ?w1 = (Some ?data, ?w2)"
    unfolding sz
    by (simp add: os_read_def print_def one_file_world_def fresh_world_def
          length_second_item_corrupted)
  have "length ?data div sizeof_item_type = length [snd (lcg_random 43), 0::u64]"
    by (simp add: length_second_item_corrupted sizeof_item_type_def)
  then have it: "items_of_bytes (length ?data div sizeof_item_type) ?data = [snd (lcg_random 43), 0]"
    unfolding second_item_corrupted_def by (simp only: items_of_bytes_exact)
  have c: "check_items (items_of_bytes (length ?data div sizeof_item_type) ?data) 0
              (ucast (g_seed ?G + (0 + 1))) = Inl 1"
    unfolding it seed using check_items_two_second_wrong by simp
  have b: "read_blocks ?G 1 (0 + 1) (filename_of 0) (Suc 0) 0 (ucast (g_seed ?G + (0 + 1))) 0 ?w1
      = Blocks_exit (?G\<lparr>gopt_unlink_after := False\<rparr>)
          (print (Mismatch (filename_of 0) 0 (of_nat (1 * sizeof_int))) ?w2)"
  proof (rule read_blocks_mismatch [OF _ r _ _ c])
    show "(0::u32) < gopt_file_size ?G" by (simp add: k)
    show "?data \<noteq> []" using length_second_item_corrupted by auto
    show "length ?data \<le> sizeof_block" by (simp add: length_second_item_corrupted sizeof_block_def)
  qed
  have f: "read_files ?G 1 0 ?wp = Some (Exited EXIT_FAILURE (?G\<lparr>gopt_unlink_after := False\<rparr>)
          (print (Mismatch (filename_of 0) 0 (of_nat (1 * sizeof_int))) ?w2))"
    using o b by (rule read_files_blocks_exit)
  have rr: "read_randfiles ?G ?w0 = Some (Exited EXIT_FAILURE (?G\<lparr>gopt_unlink_after := False\<rparr>)
          (print (Mismatch (filename_of 0) 0 (of_nat (1 * sizeof_int))) ?w2))"
    using im f by (simp add: read_randfiles_def probe_files_one_file)
  have m: "main ?G ?w0 = Some (Exited EXIT_FAILURE (?G\<lparr>gopt_unlink_after := False\<rparr>)
          (print (Mismatch (filename_of 0) 0 (of_nat (1 * sizeof_int))) ?w2), [VERIFY])"
    unfolding main_def rp by (simp add: main_loop_readonly [OF ro] rr)
  have t1: "take 8 ?data = item_bytes (snd (lcg_random 43))"
    by (simp add: second_item_corrupted_def bytes_of_items_Cons length_item_bytes)
  have d8: "take 8 (drop 8 ?data) = item_bytes 0"
    by (simp add: second_item_corrupted_def bytes_of_items_Cons bytes_of_items_Nil length_item_bytes)
  have t2: "item_of_bytes (take 8 (drop 8 ?data)) \<noteq> snd (lcg_random (snd (lcg_random 43)))"
    unfolding d8 item_of_bytes_item_bytes by (simp add: lcg_random_def Let_def)
  show ?thesis
    unfolding m using t1 t2
    by (simp add: print_def one_file_world_def fresh_world_def seed sizeof_int_def filename_of_0)
qed


section \<open>The fill path and whole files\<close>

lemma unat_u32_succ:
  fixes b lim :: u32
  assumes "b < lim"
  shows "unat (b + 1) = Suc (unat b)"
proof -
  have "unat b < unat lim" using assms by (simp add: word_less_nat_alt)
  moreover have "unat lim < 2 ^ 32" using unsigned_less [of lim] by simp
  ultimately show ?thesis by (simp add: unat_word_ariths)
qed

text \<open>The world after \<open>bs\<close> was appended to inode \<open>ino\<close> through descriptor \<open>fd\<close> by
  \<open>k\<close> calls of \<^verbatim>\<open>write\<close>.\<close>

lemma wrote_fields [simp]:
  "dir (wrote fd ino bs k w) = dir w"
  "inodes (wrote fd ino bs k w) = (inodes w)(ino := inodes w ino @ bs)"
  "fdt (wrote fd ino bs k w) = (fdt w)(fd \<mapsto> (ino, length (inodes w ino) + length bs))"
  "next_ino (wrote fd ino bs k w) = next_ino w"
  "next_fd (wrote fd ino bs k w) = next_fd w"
  "create_fails (wrote fd ino bs k w) = create_fails w"
  "write_results (wrote fd ino bs k w) = drop k (write_results w)"
  "read_fails (wrote fd ino bs k w) = read_fails w"
  "statvfs_result (wrote fd ino bs k w) = statvfs_result w"
  "stdout (wrote fd ino bs k w) = stdout w"
  by (simp_all add: wrote_def)

lemma wrote_wrote: "wrote fd ino b k (wrote fd ino a j w) = wrote fd ino (a @ b) (j + k) w"
  by (rule world.equality) (simp_all add: wrote_def ac_simps)

lemma wrote_nil:
  "fdt w fd = Some (ino, length (inodes w ino)) \<Longrightarrow> wrote fd ino [] 0 w = w"
  by (rule world.equality) (auto simp add: wrote_def)

lemma store_at_end: "store_at (length d) chunk d = d @ chunk"
  by (simp add: store_at_def)

lemma os_write_all:
  assumes "fdt w fd = Some (ino, length (inodes w ino))" and "buf \<noteq> []"
    and "write_results w = [] \<or> int (length buf) \<le> hd (write_results w)"
  shows "os_write fd buf w = (int (length buf), wrote fd ino buf (Suc 0) w)"
proof (cases "write_results w")
  case Nil
  have "put_bytes fd ino (length (inodes w ino)) buf w = wrote fd ino buf (Suc 0) w"
    by (rule world.equality) (simp_all add: put_bytes_def store_at_end Nil)
  with assms(1) Nil show ?thesis by (simp add: os_write_def)
next
  case (Cons r rest)
  with assms(2,3) have r: "int (length buf) \<le> r" "0 < r" by (cases buf; simp)+
  have "put_bytes fd ino (length (inodes w ino)) buf (w\<lparr>write_results := rest\<rparr>) = wrote fd ino buf (Suc 0) w"
    by (rule world.equality) (simp_all add: put_bytes_def store_at_end Cons)
  with assms(1) Cons r show ?thesis by (simp add: os_write_def)
qed

lemma os_write_some:
  assumes "fdt w fd = Some (ino, length (inodes w ino))"
    and "write_results w = r # rest" and "0 < r"
  shows "os_write fd buf w = (int (length (take (nat r) buf)), wrote fd ino (take (nat r) buf) (Suc 0) w)"
proof -
  have "put_bytes fd ino (length (inodes w ino)) (take (nat r) buf) (w\<lparr>write_results := rest\<rparr>)
      = wrote fd ino (take (nat r) buf) (Suc 0) w"
    by (rule world.equality) (simp_all add: put_bytes_def store_at_end assms(2))
  with assms show ?thesis by (simp add: os_write_def)
qed

lemma os_write_fails:
  assumes "fdt w fd = Some (ino, off)" and "write_results w = r # rest" and "r \<le> 0"
  shows "os_write fd buf w = (r, w\<lparr>write_results := rest\<rparr>)"
  using assms by (simp add: os_write_def)

lemma write_block_done: "write_block fd name block wp True w = (wp, True, w)"
  by (subst write_block.simps) simp

lemma write_block_at_end: "write_block fd name block sizeof_block dn w = (sizeof_block, dn, w)"
  by (subst write_block.simps) simp

lemma sizeof_block_pos: "0 < sizeof_block"
  by (simp add: sizeof_block_def)

lemma write_block_all:
  assumes "fdt w fd = Some (ino, length (inodes w ino))" and "length block = sizeof_block"
    and "write_results w = [] \<or> int sizeof_block \<le> hd (write_results w)"
  shows "write_block fd name block 0 False w = (sizeof_block, False, wrote fd ino block (Suc 0) w)"
proof -
  have ne: "block \<noteq> []" using assms(2) sizeof_block_pos by auto
  have "os_write fd block w = (int (length block), wrote fd ino block (Suc 0) w)"
    using assms by (intro os_write_all ne) simp_all
  then show ?thesis
    using assms(2) sizeof_block_pos
    by (subst write_block.simps) (simp add: write_block_at_end)
qed

lemma write_block_fails_first:
  assumes "fdt w fd = Some (ino, off)" and "write_results w = r # rest" and "r \<le> 0"
  shows "write_block fd name block 0 False w
         = (0, True, print (Error_writing_next_file name) (w\<lparr>write_results := rest\<rparr>))"
  using os_write_fails [OF assms] sizeof_block_pos assms(3)
  by (subst write_block.simps) simp

lemma write_blocks_end:
  "\<not> blocknum < gopt_file_size G \<Longrightarrow> write_blocks G fd name blocknum rnd wtotal dn w = (wtotal, dn, w)"
  by (subst write_blocks.simps) simp

lemma write_blocks_step:
  "blocknum < gopt_file_size G \<Longrightarrow>
     write_blocks G fd name blocknum rnd wtotal dn w =
       write_blocks G fd name (blocknum + 1) (lcg_state rnd block_items)
         (wtotal + fst (write_block fd name (stream_bytes rnd block_items) 0 dn w))
         (fst (snd (write_block fd name (stream_bytes rnd block_items) 0 dn w)))
         (snd (snd (write_block fd name (stream_bytes rnd block_items) 0 dn w)))"
  by (subst write_blocks.simps) (simp add: Let_def fill_block_eq stream_bytes_def)

lemma write_blocks_done:
  "write_blocks G fd name blocknum rnd wtotal True w = (wtotal, True, w)"
proof (induction "unat (gopt_file_size G) - unat blocknum" arbitrary: blocknum rnd wtotal)
  case 0
  then have "\<not> blocknum < gopt_file_size G" by (simp add: word_less_nat_alt)
  then show ?case by (rule write_blocks_end)
next
  case (Suc n)
  then have lt: "blocknum < gopt_file_size G" by (simp add: word_less_nat_alt)
  have "n = unat (gopt_file_size G) - unat (blocknum + 1)"
    using unat_u32_succ [OF lt] Suc(2) by simp
  from Suc(1) [OF this] show ?case
    by (simp add: write_blocks_step [OF lt] write_block_done)
qed

lemma block_bytes: "8 * block_items = sizeof_block"
  by (simp add: block_items_def sizeof_block_def sizeof_item_type_def)

lemma length_block_stream: "length (stream_bytes rnd block_items) = sizeof_block"
  by (simp add: length_stream_bytes block_bytes)

lemma set_take_drop1: "set (take k (drop (Suc 0) ws)) \<subseteq> set (take (Suc k) ws)"
  by (cases ws) auto

lemma write_blocks_full:
  assumes "fdt w fd = Some (ino, length (inodes w ino))"
    and "unat blocknum + k \<le> unat (gopt_file_size G)"
    and "\<forall>r \<in> set (take k (write_results w)). int sizeof_block \<le> r"
  shows "write_blocks G fd name blocknum rnd wtotal False w =
         write_blocks G fd name (blocknum + of_nat k) (lcg_state rnd (k * block_items))
           (wtotal + k * sizeof_block) False
           (wrote fd ino (stream_bytes rnd (k * block_items)) k w)"
  using assms
proof (induction k arbitrary: blocknum rnd wtotal w)
  case 0
  then show ?case by (simp add: wrote_nil stream_bytes_def bytes_of_items_Nil)
next
  case (Suc k)
  let ?b = "stream_bytes rnd block_items"
  let ?w1 = "wrote fd ino ?b (Suc 0) w"
  have lt: "blocknum < gopt_file_size G"
    using Suc.prems(2) by (simp add: word_less_nat_alt)
  have hd: "write_results w = [] \<or> int sizeof_block \<le> hd (write_results w)"
    using Suc.prems(3) by (cases "write_results w") simp_all
  have wb: "write_block fd name ?b 0 False w = (sizeof_block, False, ?w1)"
    using Suc.prems(1) length_block_stream hd by (rule write_block_all)
  have p1: "fdt ?w1 fd = Some (ino, length (inodes ?w1 ino))"
    by simp
  have p2: "unat (blocknum + 1) + k \<le> unat (gopt_file_size G)"
    using Suc.prems(2) unat_u32_succ [OF lt] by simp
  have p3: "\<forall>r \<in> set (take k (write_results ?w1)). int sizeof_block \<le> r"
    using Suc.prems(3) set_take_drop1 [of k "write_results w"] by auto
  have "write_blocks G fd name blocknum rnd wtotal False w
      = write_blocks G fd name (blocknum + 1) (lcg_state rnd block_items)
          (wtotal + sizeof_block) False ?w1"
    by (simp add: write_blocks_step [OF lt] wb)
  also have "\<dots> = write_blocks G fd name (blocknum + 1 + of_nat k)
          (lcg_state (lcg_state rnd block_items) (k * block_items))
          (wtotal + sizeof_block + k * sizeof_block) False
          (wrote fd ino (stream_bytes (lcg_state rnd block_items) (k * block_items)) k ?w1)"
    by (rule Suc.IH [OF p1 p2 p3])
  also have "blocknum + 1 + of_nat k = blocknum + of_nat (Suc k)" by simp
  also have "lcg_state (lcg_state rnd block_items) (k * block_items)
      = lcg_state rnd (Suc k * block_items)"
    by (simp add: lcg_state_add)
  also have "wrote fd ino (stream_bytes (lcg_state rnd block_items) (k * block_items)) k ?w1
      = wrote fd ino (stream_bytes rnd (Suc k * block_items)) (Suc k) w"
    by (simp add: wrote_wrote stream_bytes_add)
  also have "wtotal + sizeof_block + k * sizeof_block = wtotal + Suc k * sizeof_block" by simp
  finally show ?case .
qed

lemma write_block_some_then_fails:
  assumes "fdt w fd = Some (ino, length (inodes w ino))" and "length block = sizeof_block"
    and "write_results w = r1 # r2 # rest" and "0 < r1" and "nat r1 < sizeof_block" and "r2 \<le> 0"
  shows "write_block fd name block 0 False w
         = (nat r1, True, print (Error_writing_next_file name) (wrote fd ino (take (nat r1) block) 2 w))"
proof -
  let ?c = "take (nat r1) block"
  let ?w1 = "wrote fd ino ?c (Suc 0) w"
  have len: "length ?c = nat r1" using assms(2,5) by simp
  have w1: "os_write fd block w = (int (nat r1), ?w1)"
    using os_write_some [OF assms(1,3,4), of block] len by simp
  have f1: "fdt ?w1 fd = Some (ino, length (inodes ?w1 ino))" by simp
  have r1: "write_results ?w1 = r2 # rest" using assms(3) by simp
  have w2: "os_write fd (take (sizeof_block - nat r1) (drop (nat r1) block)) ?w1
      = (r2, ?w1\<lparr>write_results := rest\<rparr>)"
    using f1 r1 assms(6) by (rule os_write_fails)
  have e: "?w1\<lparr>write_results := rest\<rparr> = wrote fd ino ?c 2 w"
    by (rule world.equality) (simp_all add: wrote_def assms(3))
  have s2: "write_block fd name block (nat r1) False ?w1
      = (nat r1, True, print (Error_writing_next_file name) (wrote fd ino ?c 2 w))"
    using assms(5,6) by (subst write_block.simps) (simp add: w2 e)
  show ?thesis
    using assms(2,4) sizeof_block_pos by (subst write_block.simps) (simp add: w1 s2)
qed

lemma digit_val_digit_char: "d < 10 \<Longrightarrow> digit_val (digit_char d) = d"
proof -
  assume "d < 10"
  then consider "d = 0" | "d = 1" | "d = 2" | "d = 3" | "d = 4" | "d = 5" | "d = 6" | "d = 7"
    | "d = 8" | "d = 9" by atomize_elim arith
  then show ?thesis
    by cases (simp_all add: digit_val_def digit_char_def)
qed

lemma undec_append: "undec (s @ [c]) = 10 * undec s + digit_val c"
  by (simp add: undec_def)

lemma undec_dec_digits: "undec (dec_digits n) = n"
proof (induction n rule: dec_digits.induct)
  case (1 n)
  show ?case
  proof (cases "n < 10")
    case True
    then show ?thesis
      by (subst dec_digits.simps) (simp add: undec_def digit_val_digit_char)
  next
    case False
    have "undec (dec_digits (n div 10) @ [digit_char (n mod 10)]) = 10 * (n div 10) + n mod 10"
      using "1.IH" [OF False] by (simp add: undec_append digit_val_digit_char)
    with False show ?thesis by (subst dec_digits.simps) simp
  qed
qed

lemma undec_zeros: "undec (replicate k (CHR ''0'') @ s) = undec s"
proof -
  have "foldl (\<lambda>a c. 10 * a + digit_val c) 0 (replicate k (CHR ''0'')) = 0"
    by (induction k) (simp_all add: digit_val_def)
  then show ?thesis by (simp add: undec_def)
qed

lemma undec_filename_of: "undec (drop 7 (filename_of filenum)) = unat filenum"
  by (simp add: filename_of_def Let_def undec_zeros undec_dec_digits)

lemma filename_of_inj: "filename_of a = filename_of b \<Longrightarrow> a = b"
proof -
  assume "filename_of a = filename_of b"
  then have "undec (drop 7 (filename_of a)) = undec (drop 7 (filename_of b))" by simp
  then have "unat a = unat b" by (simp only: undec_filename_of)
  then show "a = b" by (simp only: word_unat_eq_iff)
qed

lemma filename_of_eq_iff [simp]: "filename_of a = filename_of b \<longleftrightarrow> a = b"
  using filename_of_inj by blast

text \<open>The world after a creating \<^verbatim>\<open>open\<close> of a name that was not in the directory.\<close>

text \<open>The file with number \<open>filenum\<close> is in the directory and holds the byte stream of the
  generator seeded at \<open>seed + (filenum + 1)\<close>, \<open>fsize\<close> blocks long.\<close>

lemma created_fields [simp]:
  "dir (created name w) = (dir w)(name \<mapsto> next_ino w)"
  "inodes (created name w) = (inodes w)(next_ino w := [])"
  "fdt (created name w) = (fdt w)(next_fd w \<mapsto> (next_ino w, 0))"
  "next_ino (created name w) = Suc (next_ino w)"
  "next_fd (created name w) = Suc (next_fd w)"
  "create_fails (created name w) = tl (create_fails w)"
  "write_results (created name w) = write_results w"
  "read_fails (created name w) = read_fails w"
  "statvfs_result (created name w) = statvfs_result w"
  "stdout (created name w) = stdout w"
  by (simp_all add: created_def)

lemma os_open_creat_new:
  assumes "dir w name = None" and "create_fails w = [] \<or> \<not> hd (create_fails w)"
  shows "os_open_creat name w = (Some (next_fd w), created name w)"
proof -
  have "(case create_fails w of True # rest \<Rightarrow> (None, w\<lparr>create_fails := rest\<rparr>) | _ \<Rightarrow> X) = X" for X :: "nat option \<times> world"
    using assms(2) by (cases "create_fails w") (auto split: bool.splits)
  moreover have "w\<lparr>create_fails := tl (create_fails w),
        dir := (dir w)(name \<mapsto> next_ino w), inodes := (inodes w)(next_ino w := []),
        next_ino := Suc (next_ino w),
        fdt := (fdt w)(next_fd w \<mapsto> (next_ino w, 0)), next_fd := Suc (next_fd w)\<rparr> = created name w"
    by (rule world.equality) (simp_all add: created_def)
  ultimately show ?thesis
    using assms(1) by (simp add: os_open_creat_def new_fd_def Let_def)
qed

lemma print_fields [simp]:
  "inodes (print m w) = inodes w" "fdt (print m w) = fdt w"
  "next_ino (print m w) = next_ino w" "next_fd (print m w) = next_fd w"
  "create_fails (print m w) = create_fails w" "write_results (print m w) = write_results w"
  "read_fails (print m w) = read_fails w" "statvfs_result (print m w) = statvfs_result w"
  "stdout (print m w) = stdout w @ [m]"
  by (simp_all add: print_def)

lemma os_close_fields [simp]:
  "dir (os_close fd w) = dir w" "inodes (os_close fd w) = inodes w"
  "fdt (os_close fd w) = (fdt w)(fd := None)"
  "next_ino (os_close fd w) = next_ino w" "next_fd (os_close fd w) = next_fd w"
  "create_fails (os_close fd w) = create_fails w" "write_results (os_close fd w) = write_results w"
  "read_fails (os_close fd w) = read_fails w" "statvfs_result (os_close fd w) = statvfs_result w"
  "stdout (os_close fd w) = stdout w"
  by (simp_all add: os_close_def)

text \<open>Writing all blocks of one file when every write is taken in full.\<close>

lemma write_blocks_all:
  assumes "fdt w fd = Some (ino, length (inodes w ino))"
    and "\<forall>r \<in> set (take (unat (gopt_file_size G)) (write_results w)). int sizeof_block \<le> r"
  shows "write_blocks G fd name 0 rnd 0 False w =
           (unat (gopt_file_size G) * sizeof_block, False,
            wrote fd ino (stream_bytes rnd (unat (gopt_file_size G) * block_items))
              (unat (gopt_file_size G)) w)"
proof -
  let ?k = "unat (gopt_file_size G)"
  have "write_blocks G fd name 0 rnd 0 False w =
         write_blocks G fd name (0 + of_nat ?k) (lcg_state rnd (?k * block_items))
           (0 + ?k * sizeof_block) False (wrote fd ino (stream_bytes rnd (?k * block_items)) ?k w)"
    using assms by (intro write_blocks_full) simp_all
  also have "(0::u32) + of_nat ?k = gopt_file_size G" by simp
  finally show ?thesis by (simp add: write_blocks_end)
qed

lemma write_one_file_all:
  assumes "\<not> gopt_unlink_immediate G"
    and "fdt w fd = Some (ino, length (inodes w ino))"
    and "\<forall>r \<in> set (take (unat (gopt_file_size G)) (write_results w)). int sizeof_block \<le> r"
  shows "write_one_file G efl filenum fd False w =
           (G\<lparr>g_last_filesize := of_nat (unat (gopt_file_size G) * sizeof_block)\<rparr>, False,
            print (Wrote (filename_of filenum) (unat (gopt_file_size G) * sizeof_block)
                     (efl \<noteq> UINT_MAX \<and> filenum + 1 \<le> efl))
              (os_close fd
                 (wrote fd ino
                    (stream_bytes (ucast (g_seed G + (filenum + 1))) (unat (gopt_file_size G) * block_items))
                    (unat (gopt_file_size G)) w)))"
  using assms(1) by (simp add: write_one_file_def Let_def write_blocks_all [OF assms(2,3)])




lemma at_offset_fields [simp]:
  "dir (at_offset fd ino off w) = dir w"
  "inodes (at_offset fd ino off w) = inodes w"
  "fdt (at_offset fd ino off w) = (fdt w)(fd \<mapsto> (ino, off))"
  "next_ino (at_offset fd ino off w) = next_ino w"
  "next_fd (at_offset fd ino off w) = next_fd w"
  "create_fails (at_offset fd ino off w) = create_fails w"
  "write_results (at_offset fd ino off w) = write_results w"
  "read_fails (at_offset fd ino off w) = read_fails w"
  "statvfs_result (at_offset fd ino off w) = statvfs_result w"
  "stdout (at_offset fd ino off w) = stdout w"
  by (simp_all add: at_offset_def)

lemma at_offset_twice [simp]:
  "at_offset fd ino b (at_offset fd ino a w) = at_offset fd ino b w"
  by (simp add: at_offset_def)

lemma os_read_ok:
  assumes "fdt w fd = Some (ino, off)" and "read_fails w = []"
  shows "os_read fd n w =
           (Some (take n (drop off (inodes w ino))),
            at_offset fd ino (off + length (take n (drop off (inodes w ino)))) w)"
proof -
  have "w\<lparr>read_fails := [], fdt := (fdt w)(fd \<mapsto> (ino, off + length (take n (drop off (inodes w ino)))))\<rparr>
      = at_offset fd ino (off + length (take n (drop off (inodes w ino)))) w"
    by (rule world.equality) (simp_all add: at_offset_def assms(2))
  with assms show ?thesis by (simp add: os_read_def Let_def)
qed

text \<open>When the size handed to \<^verbatim>\<open>read\<close> is the size of the block.\<close>

lemma unat_ucast_u32_u64: "unat (ucast (x :: u32) :: u64) = unat x"
proof -
  have "unat x < 2 ^ 32" using unsigned_less [of x] by simp
  then have "unat x < 2 ^ 64" by simp
  then show ?thesis by (simp add: unsigned_ucast_eq take_bit_nat_eq_self)
qed

lemma marker_compare:
  "(ucast (m :: u32) :: u64) < ucast (b :: u32) * of_nat sizeof_block \<longleftrightarrow> unat m < unat b * sizeof_block"
proof -
  have "unat b < 2 ^ 32" using unsigned_less [of b] by simp
  then have "unat b * sizeof_block < 2 ^ 32 * 2 ^ 20"
    by (simp add: sizeof_block_def)
  then have lt: "unat b * sizeof_block < 2 ^ LENGTH(64)" by simp
  have "unat ((ucast b :: u64) * of_nat sizeof_block) = unat b * sizeof_block"
    using lt by (simp add: unat_word_ariths unat_ucast_u32_u64 unat_of_nat sizeof_block_def)
  then show ?thesis by (simp add: word_less_nat_alt unat_ucast_u32_u64)
qed

lemma read_size_whole:
  "reads_whole_block G efl filenum (unat b) \<Longrightarrow> unat (read_size_of G efl filenum b) = sizeof_block"
proof -
  assume "reads_whole_block G efl filenum (unat b)"
  then have "read_size_of G efl filenum b = of_nat sizeof_block"
    unfolding reads_whole_block_def read_size_of_def marker_compare by auto
  then show ?thesis by (simp add: unat_of_nat sizeof_block_def)
qed

lemma read_blocks_one_good:
  assumes "fdt w fd = Some (ino, off)" and "read_fails w = []"
    and "take sizeof_block (drop off (inodes w ino)) = stream_bytes rnd block_items"
    and "blocknum < gopt_file_size G"
    and "reads_whole_block G efl filenum (unat blocknum)"
  shows "read_blocks G efl filenum name fd blocknum rnd rtotal w =
         read_blocks G efl filenum name fd (blocknum + 1) (lcg_state rnd block_items)
           (rtotal + sizeof_block) (at_offset fd ino (off + sizeof_block) w)"
proof -
  let ?bs = "stream_bytes rnd block_items"
  have r: "os_read fd (unat (read_size_of G efl filenum blocknum)) w
      = (Some ?bs, at_offset fd ino (off + sizeof_block) w)"
    using os_read_ok [OF assms(1,2), of sizeof_block]
    by (simp add: read_size_whole [OF assms(5)] assms(3) length_block_stream)
  have ne: "?bs \<noteq> []" using length_block_stream [of rnd] sizeof_block_pos by auto
  have le: "length ?bs \<le> sizeof_block" by (simp add: length_block_stream)
  have n: "length ?bs div sizeof_item_type = length (lcg_stream rnd block_items)"
    unfolding length_block_stream length_lcg_stream by (simp add: block_items_def)
  have "items_of_bytes (length (lcg_stream rnd block_items)) ?bs = lcg_stream rnd block_items"
    unfolding stream_bytes_def by (rule items_of_bytes_exact)
  then have "items_of_bytes (length ?bs div sizeof_item_type) ?bs = lcg_stream rnd block_items"
    by (simp only: n)
  then have c: "check_items (items_of_bytes (length ?bs div sizeof_item_type) ?bs) 0 rnd
      = Inr (lcg_state rnd block_items)"
    by (simp only: check_items_stream)
  show ?thesis
    using read_blocks_match [OF assms(4) r ne le c] by (simp add: length_block_stream)
qed

lemma read_blocks_good:
  assumes "fdt w fd = Some (ino, off)" and "read_fails w = []"
    and "take (k * sizeof_block) (drop off (inodes w ino)) = stream_bytes rnd (k * block_items)"
    and "unat blocknum + k \<le> unat (gopt_file_size G)"
    and "\<forall>j < k. reads_whole_block G efl filenum (unat blocknum + j)"
  shows "read_blocks G efl filenum name fd blocknum rnd rtotal w =
         read_blocks G efl filenum name fd (blocknum + of_nat k) (lcg_state rnd (k * block_items))
           (rtotal + k * sizeof_block) (at_offset fd ino (off + k * sizeof_block) w)"
  using assms
proof (induction k arbitrary: blocknum rnd rtotal w off)
  case 0
  have "at_offset fd ino off w = w"
    by (rule world.equality) (use "0.prems"(1) in \<open>auto simp add: at_offset_def\<close>)
  then show ?case by simp
next
  case (Suc k)
  let ?d = "drop off (inodes w ino)"
  let ?w1 = "at_offset fd ino (off + sizeof_block) w"
  have lt: "blocknum < gopt_file_size G"
    using Suc.prems(4) by (simp add: word_less_nat_alt)
  have whole: "take (Suc k * sizeof_block) ?d
      = stream_bytes rnd block_items @ stream_bytes (lcg_state rnd block_items) (k * block_items)"
    using Suc.prems(3) stream_bytes_add [of rnd block_items "k * block_items"] by simp
  have "take sizeof_block (take (Suc k * sizeof_block) ?d) = stream_bytes rnd block_items"
    unfolding whole by (simp add: length_block_stream)
  then have first: "take sizeof_block ?d = stream_bytes rnd block_items"
    by (simp add: min_def)
  have "drop sizeof_block (take (Suc k * sizeof_block) ?d)
      = stream_bytes (lcg_state rnd block_items) (k * block_items)"
    unfolding whole by (simp add: length_block_stream)
  then have rest: "take (k * sizeof_block) (drop (off + sizeof_block) (inodes w ino))
      = stream_bytes (lcg_state rnd block_items) (k * block_items)"
    by (simp add: drop_take add.commute)
  have w0: "reads_whole_block G efl filenum (unat blocknum)"
    using Suc.prems(5) by force
  have s1: "read_blocks G efl filenum name fd blocknum rnd rtotal w =
         read_blocks G efl filenum name fd (blocknum + 1) (lcg_state rnd block_items)
           (rtotal + sizeof_block) ?w1"
    using Suc.prems(1,2) first lt w0 by (rule read_blocks_one_good)
  have p1: "fdt ?w1 fd = Some (ino, off + sizeof_block)" by simp
  have p2: "read_fails ?w1 = []" using Suc.prems(2) by simp
  have p3: "take (k * sizeof_block) (drop (off + sizeof_block) (inodes ?w1 ino))
      = stream_bytes (lcg_state rnd block_items) (k * block_items)"
    using rest by simp
  have p4: "unat (blocknum + 1) + k \<le> unat (gopt_file_size G)"
    using Suc.prems(4) unat_u32_succ [OF lt] by simp
  have p5: "\<forall>j < k. reads_whole_block G efl filenum (unat (blocknum + 1) + j)"
    using Suc.prems(5) unat_u32_succ [OF lt] by auto
  have "read_blocks G efl filenum name fd (blocknum + 1) (lcg_state rnd block_items)
           (rtotal + sizeof_block) ?w1
      = read_blocks G efl filenum name fd (blocknum + 1 + of_nat k)
           (lcg_state (lcg_state rnd block_items) (k * block_items))
           (rtotal + sizeof_block + k * sizeof_block)
           (at_offset fd ino (off + sizeof_block + k * sizeof_block) ?w1)"
    by (rule Suc.IH [OF p1 p2 p3 p4 p5])
  also have "blocknum + 1 + of_nat k = blocknum + of_nat (Suc k)" by simp
  also have "lcg_state (lcg_state rnd block_items) (k * block_items)
      = lcg_state rnd (Suc k * block_items)"
    by (simp add: lcg_state_add)
  also have "rtotal + sizeof_block + k * sizeof_block = rtotal + Suc k * sizeof_block" by simp
  also have "at_offset fd ino (off + sizeof_block + k * sizeof_block) ?w1
      = at_offset fd ino (off + Suc k * sizeof_block) w"
    by (simp add: add.assoc)
  finally show ?case using s1 by simp
qed

text \<open>A file that holds the whole stream passes all its blocks.\<close>

lemma read_blocks_whole_file:
  assumes "fdt w fd = Some (ino, 0)" and "read_fails w = []"
    and "inodes w ino = stream_bytes rnd (unat (gopt_file_size G) * block_items)"
    and "\<forall>j < unat (gopt_file_size G). reads_whole_block G efl filenum j"
  shows "read_blocks G efl filenum name fd 0 rnd 0 w =
         Blocks_end (unat (gopt_file_size G) * sizeof_block) False
           (at_offset fd ino (unat (gopt_file_size G) * sizeof_block) w)"
proof -
  let ?k = "unat (gopt_file_size G)"
  have "length (inodes w ino) = ?k * sizeof_block"
    by (simp add: assms(3) length_stream_bytes block_bytes [symmetric])
  then have d: "take (?k * sizeof_block) (drop 0 (inodes w ino)) = stream_bytes rnd (?k * block_items)"
    using assms(3) by simp
  have "read_blocks G efl filenum name fd 0 rnd 0 w =
         read_blocks G efl filenum name fd (0 + of_nat ?k) (lcg_state rnd (?k * block_items))
           (0 + ?k * sizeof_block) (at_offset fd ino (0 + ?k * sizeof_block) w)"
    using assms(1,2) d assms(4) by (intro read_blocks_good) simp_all
  also have "(0::u32) + of_nat ?k = gopt_file_size G" by simp
  finally show ?thesis by (simp add: read_blocks_end)
qed

lemma verified_file_fields [simp]:
  "dir (verified_file name rtotal w) = dir w"
  "inodes (verified_file name rtotal w) = inodes w"
  "fdt (verified_file name rtotal w) = (fdt w)(next_fd w := None)"
  "next_ino (verified_file name rtotal w) = next_ino w"
  "next_fd (verified_file name rtotal w) = Suc (next_fd w)"
  "create_fails (verified_file name rtotal w) = create_fails w"
  "write_results (verified_file name rtotal w) = write_results w"
  "read_fails (verified_file name rtotal w) = read_fails w"
  "statvfs_result (verified_file name rtotal w) = statvfs_result w"
  "stdout (verified_file name rtotal w) = stdout w @ [Read_data name rtotal]"
  by (simp_all add: verified_file_def)

lemma open_next_by_name:
  assumes "\<not> gopt_unlink_immediate G" and "dir w (filename_of filenum) = Some ino"
  shows "open_next G filenum w
         = Open_ok (next_fd w) ((at_offset (next_fd w) ino 0 w)\<lparr>next_fd := Suc (next_fd w)\<rparr>)"
  using assms by (simp add: open_next_def os_open_rdonly_def new_fd_def at_offset_def)

lemma whole_blocks_cases:
  assumes "filenum \<noteq> efl \<or> g_last_filesize G = UINT_MAX
           \<or> unat (g_last_filesize G) = unat (gopt_file_size G) * sizeof_block"
  shows "\<forall>j < unat (gopt_file_size G). reads_whole_block G efl filenum j"
proof (intro allI impI)
  fix j assume "j < unat (gopt_file_size G)"
  then have "j * sizeof_block \<le> unat (gopt_file_size G) * sizeof_block" by simp
  with assms show "reads_whole_block G efl filenum j"
    by (auto simp add: reads_whole_block_def)
qed

lemma read_files_good_file:
  assumes "\<not> gopt_unlink_immediate G" and "holds_stream w (g_seed G) (gopt_file_size G) filenum"
    and "read_fails w = []"
    and "filenum + 1 \<noteq> efl \<or> g_last_filesize G = UINT_MAX
           \<or> unat (g_last_filesize G) = unat (gopt_file_size G) * sizeof_block"
  shows "read_files G efl filenum w
         = read_files G efl (filenum + 1)
             (verified_file (filename_of filenum) (unat (gopt_file_size G) * sizeof_block) w)"
proof -
  let ?k = "unat (gopt_file_size G)"
  let ?fd = "next_fd w"
  from assms(2) obtain ino where ino: "dir w (filename_of filenum) = Some ino"
    "inodes w ino = stream_bytes (ucast (g_seed G + (filenum + 1))) (?k * block_items)"
    by (auto simp add: holds_stream_def)
  let ?w1 = "(at_offset ?fd ino 0 w)\<lparr>next_fd := Suc ?fd\<rparr>"
  have o: "open_next G filenum w = Open_ok ?fd ?w1"
    using assms(1) ino(1) by (rule open_next_by_name)
  have b: "read_blocks G efl (filenum + 1) (filename_of filenum) ?fd 0
             (ucast (g_seed G + (filenum + 1))) 0 ?w1
           = Blocks_end (?k * sizeof_block) False (at_offset ?fd ino (?k * sizeof_block) ?w1)"
    using ino(2) assms(3) whole_blocks_cases [OF assms(4)]
    by (intro read_blocks_whole_file) simp_all
  have e: "print (Read_data (filename_of filenum) (?k * sizeof_block))
             (os_close ?fd (at_offset ?fd ino (?k * sizeof_block) ?w1))
         = verified_file (filename_of filenum) (?k * sizeof_block) w"
    by (rule world.equality) (simp_all add: verified_file_def)
  show ?thesis
    using read_files_blocks_next [OF o b] by (simp only: e)
qed




section \<open>Files of 4 GiB and more\<close>

lemma probed_fields [simp]:
  "dir (probed w) = dir w"
  "inodes (probed w) = inodes w"
  "fdt (probed w) = (fdt w)(next_fd w := None)"
  "next_ino (probed w) = next_ino w"
  "next_fd (probed w) = Suc (next_fd w)"
  "create_fails (probed w) = create_fails w"
  "write_results (probed w) = write_results w"
  "read_fails (probed w) = read_fails w"
  "statvfs_result (probed w) = statvfs_result w"
  "stdout (probed w) = stdout w"
  by (simp_all add: probed_def)

lemma probe_files_present:
  "dir w (filename_of efl) = Some ino \<Longrightarrow> probe_files efl w = probe_files (efl + 1) (probed w)"
proof -
  assume d: "dir w (filename_of efl) = Some ino"
  have e: "os_close (next_fd w) (snd (new_fd ino w)) = probed w"
    by (rule world.equality) (simp_all add: new_fd_def os_close_def probed_def)
  have "os_open_rdonly (filename_of efl) w = (Some (next_fd w), snd (new_fd ino w))"
    using d by (simp add: os_open_rdonly_def new_fd_def)
  then show ?thesis
    by (subst probe_files.simps) (simp add: e)
qed

lemma write_one_file_by_name:
  assumes "\<not> gopt_unlink_immediate G"
  shows "write_one_file G efl filenum fd dn w =
           (G\<lparr>g_last_filesize := of_nat (fst (write_blocks G fd (filename_of filenum) 0
                                              (ucast (g_seed G + (filenum + 1))) 0 dn w))\<rparr>,
            fst (snd (write_blocks G fd (filename_of filenum) 0 (ucast (g_seed G + (filenum + 1))) 0 dn w)),
            print (Wrote (filename_of filenum)
                     (fst (write_blocks G fd (filename_of filenum) 0
                             (ucast (g_seed G + (filenum + 1))) 0 dn w))
                     (efl \<noteq> UINT_MAX \<and> filenum + 1 \<le> efl))
              (os_close fd (snd (snd (write_blocks G fd (filename_of filenum) 0
                                        (ucast (g_seed G + (filenum + 1))) 0 dn w)))))"
  using assms by (simp add: write_one_file_def Let_def)

lemma read_blocks_overrun:
  assumes "blocknum < gopt_file_size G"
    and "os_read fd (unat (read_size_of G efl filenum blocknum)) w = (Some bs, w')"
    and "sizeof_block < length bs"
  shows "read_blocks G efl filenum filename fd blocknum rnd rtotal w = Blocks_overrun G w'"
proof -
  have "bs \<noteq> []" using assms(3) by auto
  with assms show ?thesis by (subst read_blocks.simps) (simp add: Let_def)
qed

lemma read_files_blocks_overrun:
  assumes "open_next G filenum w0 = Open_ok fd w1"
    and "read_blocks G efl (filenum + 1) (filename_of filenum) fd 0
           (ucast (g_seed G + (filenum + 1))) 0 w1 = Blocks_overrun G1 w2"
  shows "read_files G efl filenum w0 = Some (Overrun G1 w2)"
  using assms by (subst read_files.simps) simp

lemma one_file_4096_fields [simp]:
  "g_seed one_file_of_4096_blocks = 42"
  "\<not> gopt_readonly one_file_of_4096_blocks"
  "\<not> gopt_unlink_immediate one_file_of_4096_blocks"
  "\<not> gopt_unlink_after one_file_of_4096_blocks"
  "\<not> gopt_skip_verify one_file_of_4096_blocks"
  "gopt_file_size one_file_of_4096_blocks = 4096"
  "gopt_file_limit one_file_of_4096_blocks = 1"
  "gopt_repeat one_file_of_4096_blocks = 1"
  "g_last_filesize one_file_of_4096_blocks = UINT_MAX"
  by (simp_all add: one_file_of_4096_blocks_def)

lemma four_gib_marker: "(of_nat (unat (4096 :: u32) * sizeof_block) :: u32) = 0"
  by (simp add: sizeof_block_def)

lemma write_4096_blocks:
  defines "G \<equiv> one_file_of_4096_blocks"
  defines "w1 \<equiv> created (filename_of 0) (print (Writing_files 42) fresh_world)"
  shows "write_randfiles G (unlink_randfiles fresh_world) =
           (G\<lparr>g_last_filesize := 0\<rparr>,
            print (Wrote (filename_of 0) 4294967296 True)
              (os_close 0 (wrote 0 0 (stream_bytes 43 (4096 * block_items)) 4096 w1)))"
proof -
  let ?w0 = "print (Writing_files 42) fresh_world"
  have u: "unlink_randfiles fresh_world = fresh_world"
    by (rule unlink_randfiles_no_files) simp
  have efl: "write_expected_file_limit G fresh_world = 1"
    by (simp add: write_expected_file_limit_def G_def UINT_MAX_def)
  have o: "os_open_creat (filename_of 0) ?w0 = (Some 0, w1)"
    unfolding w1_def using os_open_creat_new [of ?w0 "filename_of 0"] by simp
  have f: "write_one_file G 1 0 0 False w1 =
           (G\<lparr>g_last_filesize := 0\<rparr>, False,
            print (Wrote (filename_of 0) 4294967296 True)
              (os_close 0 (wrote 0 0 (stream_bytes 43 (4096 * block_items)) 4096 w1)))"
    using write_one_file_all [of G w1 0 0 1 0]
    by (simp add: G_def w1_def four_gib_marker UINT_MAX_def sizeof_block_def)
  have "write_files G 1 0 False ?w0 =
        write_files (G\<lparr>g_last_filesize := 0\<rparr>) 1 (0 + 1) False
           (print (Wrote (filename_of 0) 4294967296 True)
              (os_close 0 (wrote 0 0 (stream_bytes 43 (4096 * block_items)) 4096 w1)))"
    using write_files_step [of False 0 G ?w0 0 w1 1, unfolded f] o by (simp add: G_def)
  also have "\<dots> = (G\<lparr>g_last_filesize := 0\<rparr>,
            print (Wrote (filename_of 0) 4294967296 True)
              (os_close 0 (wrote 0 0 (stream_bytes 43 (4096 * block_items)) 4096 w1)))"
    by (rule write_files_stop) (simp add: G_def)
  finally show ?thesis
    unfolding write_randfiles_def u efl by (simp add: G_def)
qed

lemma take_first_block:
  "0 < k \<Longrightarrow> take sizeof_block (stream_bytes rnd (k * block_items)) = stream_bytes rnd block_items"
proof -
  assume "0 < k"
  then have "k * block_items = block_items + (k - 1) * block_items"
    by (cases k) simp_all
  then show ?thesis
    by (simp add: stream_bytes_add length_block_stream)
qed

lemma verify_4096_blocks:
  defines "G1 \<equiv> one_file_of_4096_blocks\<lparr>g_last_filesize := 0\<rparr>"
  assumes d0: "dir w (filename_of 0) = Some ino" and d1: "dir w (filename_of 1) = None"
    and dat: "inodes w ino = stream_bytes 43 (4096 * block_items)" and rf: "read_fails w = []"
  shows "\<exists>w'. read_randfiles G1 w = Some (Exited EXIT_FAILURE G1 w')
           \<and> stdout w' = stdout w @ [Verifying 1 42, Unexpectedly_short_file (filename_of 0) 0 1048576]
           \<and> dir w' = dir w \<and> inodes w' = inodes w"
proof -
  let ?name = "filename_of 0"
  define wv where "wv = print (Verifying 1 42) (probed w)"
  define fd where "fd = next_fd wv"
  define w7 where "w7 = (at_offset fd ino 0 wv)\<lparr>next_fd := Suc fd\<rparr>"
  define w8 where "w8 = at_offset fd ino (0 + sizeof_block) w7"
  define w9 where "w9 = at_offset fd ino (0 + sizeof_block + length ([] :: byte list)) w8"
  have im: "\<not> gopt_unlink_immediate G1" and k: "gopt_file_size G1 = 4096"
    and mk: "g_last_filesize G1 = 0" and seed: "g_seed G1 = 42"
    by (simp_all add: G1_def)
  have "probe_files 0 w = probe_files (0 + 1) (probed w)"
    using d0 by (rule probe_files_present)
  also have "\<dots> = Some (0 + 1, probed w)"
    by (rule probe_files_missing) (simp add: d1)
  finally have p: "probe_files 0 w = Some (1, probed w)" by simp
  have o: "open_next G1 0 wv = Open_ok fd w7"
    unfolding fd_def w7_def by (rule open_next_by_name [OF im]) (simp add: wv_def d0)
  have rnd: "(ucast (g_seed G1 + (0 + 1)) :: u64) = 43"
    by (simp add: seed)
  have b0: "read_blocks G1 1 (0 + 1) ?name fd 0 43 0 w7
          = read_blocks G1 1 (0 + 1) ?name fd (0 + 1) (lcg_state 43 block_items) (0 + sizeof_block) w8"
    unfolding w8_def
  proof (rule read_blocks_one_good)
    show "fdt w7 fd = Some (ino, 0)" by (simp add: w7_def)
    show "read_fails w7 = []" by (simp add: w7_def wv_def rf)
    show "take sizeof_block (drop 0 (inodes w7 ino)) = stream_bytes 43 block_items"
      by (simp add: w7_def wv_def dat take_first_block)
    show "(0::u32) < gopt_file_size G1" by (simp add: k)
    show "reads_whole_block G1 1 (0 + 1) (unat (0::u32))"
      by (simp add: reads_whole_block_def)
  qed
  have sz: "unat (read_size_of G1 1 (0 + 1) (0 + 1)) = 0"
    by (simp add: read_size_of_def mk UINT_MAX_def sizeof_block_def)
  have e: "os_read fd (unat (read_size_of G1 1 (0 + 1) (0 + 1))) w8 = (Some [], w9)"
    unfolding sz w9_def using os_read_ok [of w8 fd ino "0 + sizeof_block" 0]
    by (simp add: w8_def w7_def wv_def rf)
  have b1: "read_blocks G1 1 (0 + 1) ?name fd (0 + 1) (lcg_state 43 block_items) (0 + sizeof_block) w8
          = Blocks_exit G1 (print (Unexpectedly_short_file ?name 0 (0 + sizeof_block)) w9)"
    using read_blocks_eof [of "0 + 1" G1 fd 1 "0 + 1" w8 w9 ?name "lcg_state 43 block_items"
        "0 + sizeof_block", OF _ e]
    by (simp add: k mk UINT_MAX_def sizeof_block_def)
  have f: "read_files G1 1 0 wv
         = Some (Exited EXIT_FAILURE G1 (print (Unexpectedly_short_file ?name 0 (0 + sizeof_block)) w9))"
    using o by (rule read_files_blocks_exit) (simp only: rnd b0 b1)
  have r: "read_randfiles G1 w
         = Some (Exited EXIT_FAILURE G1 (print (Unexpectedly_short_file ?name 0 (0 + sizeof_block)) w9))"
    using im f by (simp add: read_randfiles_def p seed wv_def)
  show ?thesis
    unfolding r
    by (simp add: w9_def w8_def w7_def wv_def print_def sizeof_block_def)
qed

text \<open>Below 4 GiB the marker that the fill phase leaves is the size of the file, and a
  file that holds its stream is read over all its blocks without a report.\<close>

lemma round_trip_below_4_gib:
  assumes "\<not> gopt_unlink_immediate G" and "holds_stream w (g_seed G) (gopt_file_size G) filenum"
    and "read_fails w = []"
    and "g_last_filesize G = of_nat (unat (gopt_file_size G) * sizeof_block)"
    and "unat (gopt_file_size G) * sizeof_block < 2 ^ 32"
  shows "read_files G efl filenum w
         = read_files G efl (filenum + 1)
             (verified_file (filename_of filenum) (unat (gopt_file_size G) * sizeof_block) w)"
proof -
  have "unat (g_last_filesize G) = (unat (gopt_file_size G) * sizeof_block) mod 2 ^ LENGTH(32)"
    unfolding assms(4) by (simp only: unat_of_nat)
  then have "unat (g_last_filesize G) = unat (gopt_file_size G) * sizeof_block"
    using assms(5) by simp
  then show ?thesis
    using assms(1-3) by (intro read_files_good_file) simp_all
qed

text \<open>
  C3. The round trip fails for the last file once its size reaches 4 GiB. With seed 42 and
  one file of 4096 blocks, in an empty directory where no call fails, the fill
  phase writes all 4294967296 bytes without a write error and the file holds exactly the
  stream seeded at 43; yet the verify phase compares block 0 only, then prints the
  short-file line and exits with failure. The statement \<^verbatim>\<open>g_last_filesize = wtotal\<close> stores
  the 64-bit byte count in an \<^verbatim>\<open>unsigned int\<close>, so the marker is 0 and not \<^verbatim>\<open>UINT_MAX\<close>, and
  at block 1 the size handed to \<^verbatim>\<open>read\<close> is
  \<^verbatim>\<open>g_last_filesize - (blocknum - 1) * sizeof(block) = 0\<close>.
\<close>

theorem four_gib_file_fails_its_own_verify:
  "\<exists>G' w'. main one_file_of_4096_blocks fresh_world
            = Some (Exited EXIT_FAILURE G' w', [CLEAN_OLD, FILL, VERIFY])
         \<and> stdout w' = [Writing_files 42, Wrote ''random-00000000'' 4294967296 True, Verifying 1 42,
                         Unexpectedly_short_file ''random-00000000'' 0 1048576]
         \<and> g_last_filesize G' = 0
         \<and> unat (gopt_file_size G') * sizeof_block = 4294967296
         \<and> holds_stream w' 42 4096 0"
proof -
  let ?G = one_file_of_4096_blocks
  let ?G1 = "?G\<lparr>g_last_filesize := 0\<rparr>"
  define wf where "wf = print (Wrote (filename_of 0) 4294967296 True)
              (os_close 0 (wrote 0 0 (stream_bytes 43 (4096 * block_items)) 4096
                 (created (filename_of 0) (print (Writing_files 42) fresh_world))))"
  have wr: "write_randfiles ?G (unlink_randfiles fresh_world) = (?G1, wf)"
    unfolding wf_def by (rule write_4096_blocks)
  have d0: "dir wf (filename_of 0) = Some 0" and d1: "dir wf (filename_of 1) = None"
    and dat: "inodes wf 0 = stream_bytes 43 (4096 * block_items)" and rf: "read_fails wf = []"
    and out: "stdout wf = [Writing_files 42, Wrote (filename_of 0) 4294967296 True]"
    by (simp_all add: wf_def print_def)
  obtain w' where r: "read_randfiles ?G1 wf = Some (Exited EXIT_FAILURE ?G1 w')"
    and out': "stdout w' = stdout wf @ [Verifying 1 42, Unexpectedly_short_file (filename_of 0) 0 1048576]"
    and d': "dir w' = dir wf" and i': "inodes w' = inodes wf"
    using verify_4096_blocks [OF d0 d1 dat rf] by blast
  have rp: "nat (gopt_repeat ?G) = Suc 0" by simp
  have m: "main ?G fresh_world = Some (Exited EXIT_FAILURE ?G1 w', [CLEAN_OLD, FILL, VERIFY])"
    unfolding main_def rp
    using main_loop_fill_verify [of ?G fresh_world ?G1 wf 0 "[]", OF _ wr]
    by (simp add: r)
  have hs: "holds_stream w' 42 4096 0"
    unfolding holds_stream_def d' i' using d0 dat by simp
  show ?thesis
    unfolding m using out' hs
    by (simp add: out filename_of_0 sizeof_block_def)
qed

lemma files_of_4097_fields [simp]:
  "g_seed files_of_4097_blocks = 42"
  "\<not> gopt_readonly files_of_4097_blocks"
  "\<not> gopt_unlink_immediate files_of_4097_blocks"
  "\<not> gopt_unlink_after files_of_4097_blocks"
  "\<not> gopt_skip_verify files_of_4097_blocks"
  "gopt_file_size files_of_4097_blocks = 4097"
  "gopt_file_limit files_of_4097_blocks = UINT_MAX"
  "gopt_repeat files_of_4097_blocks = 1"
  "g_last_filesize files_of_4097_blocks = UINT_MAX"
  by (simp_all add: files_of_4097_blocks_def)

lemma disk_full_fields [simp]:
  "dir disk_full_after_4_gib = Map.empty"
  "inodes disk_full_after_4_gib = (\<lambda>ino. [])"
  "fdt disk_full_after_4_gib = Map.empty"
  "next_ino disk_full_after_4_gib = 0"
  "next_fd disk_full_after_4_gib = 0"
  "create_fails disk_full_after_4_gib = []"
  "write_results disk_full_after_4_gib = replicate 4096 1048576 @ [8, - 1]"
  "read_fails disk_full_after_4_gib = []"
  "statvfs_result disk_full_after_4_gib = None"
  "stdout disk_full_after_4_gib = []"
  by (simp_all add: disk_full_after_4_gib_def)

lemma take_stream_bytes:
  "m \<le> n \<Longrightarrow> take (8 * m) (stream_bytes s n) = stream_bytes s m"
  using stream_bytes_add [of s m "n - m"] by (simp add: length_stream_bytes)

lemma drop_stream_bytes:
  "m \<le> n \<Longrightarrow> drop (8 * m) (stream_bytes s n) = stream_bytes (lcg_state s m) (n - m)"
  using stream_bytes_add [of s m "n - m"] by (simp add: length_stream_bytes)

lemma write_until_disk_full:
  defines "G \<equiv> files_of_4097_blocks"
  defines "w1 \<equiv> created (filename_of 0) (print (Writing_files 42) disk_full_after_4_gib)"
  defines "w2 \<equiv> wrote 0 0 (stream_bytes 43 (4096 * block_items)) 4096 w1"
  defines "w3 \<equiv> print (Error_writing_next_file (filename_of 0))
                   (wrote 0 0 (take 8 (stream_bytes (lcg_state 43 (4096 * block_items)) block_items)) 2 w2)"
  shows "write_randfiles G (unlink_randfiles disk_full_after_4_gib) =
           (G\<lparr>g_last_filesize := 8\<rparr>,
            print (Wrote (filename_of 0) 4294967304 False) (os_close 0 w3))"
proof -
  let ?name = "filename_of 0"
  let ?w0 = "print (Writing_files 42) disk_full_after_4_gib"
  let ?r = "lcg_state 43 (4096 * block_items)"
  have u: "unlink_randfiles disk_full_after_4_gib = disk_full_after_4_gib"
    by (rule unlink_randfiles_no_files) simp
  have efl: "write_expected_file_limit G disk_full_after_4_gib = UINT_MAX"
    by (simp add: write_expected_file_limit_def G_def)
  have o: "os_open_creat ?name ?w0 = (Some 0, w1)"
    unfolding w1_def using os_open_creat_new [of ?w0 ?name] by simp
  have a: "write_blocks G 0 ?name 0 43 0 False w1
         = write_blocks G 0 ?name (0 + of_nat 4096) ?r (0 + 4096 * sizeof_block) False w2"
    unfolding w2_def
  proof (rule write_blocks_full)
    show "fdt w1 0 = Some (0, length (inodes w1 0))" by (simp add: w1_def)
    show "unat (0::u32) + 4096 \<le> unat (gopt_file_size G)" by (simp add: G_def)
    show "\<forall>r\<in>set (take 4096 (write_results w1)). int sizeof_block \<le> r"
      by (simp add: w1_def sizeof_block_def)
  qed
  have wb: "write_block 0 ?name (stream_bytes ?r block_items) 0 False w2 = (8, True, w3)"
    unfolding w3_def
    using write_block_some_then_fails [of w2 0 0 "stream_bytes ?r block_items" 8 "- 1" "[]" ?name]
    by (simp add: w2_def w1_def length_block_stream sizeof_block_def)
  have b: "write_blocks G 0 ?name (0 + of_nat 4096) ?r (0 + 4096 * sizeof_block) False w2
         = (4294967304, True, w3)"
    using write_blocks_step [of "0 + of_nat 4096" G 0 ?name ?r "0 + 4096 * sizeof_block" False w2,
        unfolded wb]
    by (simp add: G_def write_blocks_done sizeof_block_def)
  have ab: "write_blocks G 0 ?name 0 43 0 False w1 = (4294967304, True, w3)"
    using a b by simp
  have f: "write_one_file G UINT_MAX 0 0 False w1 =
           (G\<lparr>g_last_filesize := 8\<rparr>, True,
            print (Wrote ?name 4294967304 False) (os_close 0 w3))"
    using write_one_file_by_name [of G UINT_MAX 0 0 False w1]
    by (simp add: G_def ab [unfolded G_def])
  have "write_files G UINT_MAX 0 False ?w0 =
        write_files (G\<lparr>g_last_filesize := 8\<rparr>) UINT_MAX (0 + 1) True
           (print (Wrote ?name 4294967304 False) (os_close 0 w3))"
    using write_files_step [of False 0 G ?w0 0 w1 UINT_MAX, unfolded f] o
    by (simp add: G_def UINT_MAX_def)
  also have "\<dots> = (G\<lparr>g_last_filesize := 8\<rparr>,
            print (Wrote ?name 4294967304 False) (os_close 0 w3))"
    by (rule write_files_stop) simp
  finally show ?thesis
    unfolding write_randfiles_def u efl by (simp add: G_def)
qed

lemma oversized_read_size:
  "unat (read_size_of (files_of_4097_blocks\<lparr>g_last_filesize := 8\<rparr>) 1 1 2) = 4293918728"
  by (simp add: read_size_of_def UINT_MAX_def sizeof_block_def)

lemma verify_after_disk_full:
  defines "G1 \<equiv> files_of_4097_blocks\<lparr>g_last_filesize := 8\<rparr>"
  assumes d0: "dir w (filename_of 0) = Some ino" and d1: "dir w (filename_of 1) = None"
    and dat: "inodes w ino = take 4294967304 (stream_bytes 43 (4097 * block_items))"
    and rf: "read_fails w = []"
  shows "\<exists>w'. read_randfiles G1 w = Some (Overrun G1 w')
           \<and> stdout w' = stdout w @ [Verifying 1 42]
           \<and> dir w' = dir w \<and> inodes w' = inodes w \<and> write_results w' = write_results w"
proof -
  let ?name = "filename_of 0"
  let ?data = "inodes w ino"
  let ?r1 = "lcg_state 43 block_items"
  define wv where "wv = print (Verifying 1 42) (probed w)"
  define fd where "fd = next_fd wv"
  define w7 where "w7 = (at_offset fd ino 0 wv)\<lparr>next_fd := Suc fd\<rparr>"
  define w8 where "w8 = at_offset fd ino (0 + sizeof_block) w7"
  define w9 where "w9 = at_offset fd ino (0 + sizeof_block + 8) w8"
  define bs where "bs = take 4293918728 (drop (0 + sizeof_block + 8) ?data)"
  define w10 where "w10 = at_offset fd ino (0 + sizeof_block + 8 + length bs) w9"
  have im: "\<not> gopt_unlink_immediate G1" and k: "gopt_file_size G1 = 4097"
    and mk: "g_last_filesize G1 = 8" and seed: "g_seed G1 = 42"
    by (simp_all add: G1_def)
  have len: "length ?data = 4294967304"
    by (simp add: dat length_stream_bytes block_items_def sizeof_block_def sizeof_item_type_def)
  have t0: "take sizeof_block ?data = stream_bytes 43 block_items"
  proof -
    have "take sizeof_block ?data = take (8 * block_items) (stream_bytes 43 (4097 * block_items))"
      by (simp add: dat block_bytes sizeof_block_def)
    then show ?thesis by (simp add: take_stream_bytes)
  qed
  have t1: "take 8 (drop sizeof_block ?data) = stream_bytes ?r1 1"
  proof -
    have "take 8 (drop sizeof_block ?data)
        = take 8 (drop (8 * block_items) (stream_bytes 43 (4097 * block_items)))"
      by (simp add: dat block_bytes sizeof_block_def take_drop)
    also have "\<dots> = take (8 * 1) (stream_bytes ?r1 (4097 * block_items - block_items))"
      by (simp add: drop_stream_bytes)
    also have "\<dots> = stream_bytes ?r1 1"
      by (rule take_stream_bytes) (simp add: block_items_def sizeof_block_def sizeof_item_type_def)
    finally show ?thesis .
  qed
  have "probe_files 0 w = probe_files (0 + 1) (probed w)"
    using d0 by (rule probe_files_present)
  also have "\<dots> = Some (0 + 1, probed w)"
    by (rule probe_files_missing) (simp add: d1)
  finally have p: "probe_files 0 w = Some (1, probed w)" by simp
  have o: "open_next G1 0 wv = Open_ok fd w7"
    unfolding fd_def w7_def by (rule open_next_by_name [OF im]) (simp add: wv_def d0)
  have rnd: "(ucast (g_seed G1 + (0 + 1)) :: u64) = 43"
    by (simp add: seed)
  have b0: "read_blocks G1 1 (0 + 1) ?name fd 0 43 0 w7
          = read_blocks G1 1 (0 + 1) ?name fd (0 + 1) ?r1 (0 + sizeof_block) w8"
    unfolding w8_def
  proof (rule read_blocks_one_good)
    show "fdt w7 fd = Some (ino, 0)" by (simp add: w7_def)
    show "read_fails w7 = []" by (simp add: w7_def wv_def rf)
    show "take sizeof_block (drop 0 (inodes w7 ino)) = stream_bytes 43 block_items"
      using t0 by (simp add: w7_def wv_def)
    show "(0::u32) < gopt_file_size G1" by (simp add: k)
    show "reads_whole_block G1 1 (0 + 1) (unat (0::u32))"
      by (simp add: reads_whole_block_def)
  qed
  have sz1: "unat (read_size_of G1 1 (0 + 1) (0 + 1)) = 8"
    by (simp add: read_size_of_def mk UINT_MAX_def sizeof_block_def)
  have e1: "os_read fd (unat (read_size_of G1 1 (0 + 1) (0 + 1))) w8 = (Some (stream_bytes ?r1 1), w9)"
    unfolding sz1 w9_def using os_read_ok [of w8 fd ino "0 + sizeof_block" 8] t1
    by (simp add: w8_def w7_def wv_def rf length_stream_bytes)
  have c1: "check_items (items_of_bytes (length (stream_bytes ?r1 1) div sizeof_item_type)
               (stream_bytes ?r1 1)) 0 ?r1 = Inr (lcg_state ?r1 1)"
  proof -
    have "length (stream_bytes ?r1 1) div sizeof_item_type = length (lcg_stream ?r1 1)"
      by (simp add: length_stream_bytes sizeof_item_type_def length_lcg_stream)
    then have "items_of_bytes (length (stream_bytes ?r1 1) div sizeof_item_type) (stream_bytes ?r1 1)
             = lcg_stream ?r1 1"
      unfolding stream_bytes_def by (simp only: items_of_bytes_exact)
    then show ?thesis by (simp only: check_items_stream)
  qed
  have b1: "read_blocks G1 1 (0 + 1) ?name fd (0 + 1) ?r1 (0 + sizeof_block) w8
          = read_blocks G1 1 (0 + 1) ?name fd (0 + 1 + 1) (lcg_state ?r1 1)
              (0 + sizeof_block + length (stream_bytes ?r1 1)) w9"
  proof (rule read_blocks_match [OF _ e1 _ _ c1])
    show "(0 + 1 :: u32) < gopt_file_size G1" by (simp add: k)
    show "stream_bytes ?r1 1 \<noteq> []" using length_stream_bytes [of ?r1 1] by auto
    show "length (stream_bytes ?r1 1) \<le> sizeof_block"
      by (simp add: length_stream_bytes sizeof_block_def)
  qed
  have sz2: "unat (read_size_of G1 1 (0 + 1) (0 + 1 + 1)) = 4293918728"
    using oversized_read_size by (simp add: G1_def)
  have e2: "os_read fd (unat (read_size_of G1 1 (0 + 1) (0 + 1 + 1))) w9 = (Some bs, w10)"
    unfolding sz2 w10_def bs_def using os_read_ok [of w9 fd ino "0 + sizeof_block + 8" 4293918728]
    by (simp add: w9_def w8_def w7_def wv_def rf)
  have lbs: "length bs = 4293918720"
    by (simp add: bs_def len sizeof_block_def)
  have b2: "read_blocks G1 1 (0 + 1) ?name fd (0 + 1 + 1) (lcg_state ?r1 1)
              (0 + sizeof_block + length (stream_bytes ?r1 1)) w9 = Blocks_overrun G1 w10"
  proof (rule read_blocks_overrun [OF _ e2])
    show "(0 + 1 + 1 :: u32) < gopt_file_size G1" by (simp add: k)
    show "sizeof_block < length bs" by (simp add: lbs sizeof_block_def)
  qed
  have f: "read_files G1 1 0 wv = Some (Overrun G1 w10)"
    using o by (rule read_files_blocks_overrun) (simp only: rnd b0 b1 b2)
  have r: "read_randfiles G1 w = Some (Overrun G1 w10)"
    using im f by (simp add: read_randfiles_def p seed wv_def)
  show ?thesis
    unfolding r
    by (simp add: w10_def w9_def w8_def w7_def wv_def print_def)
qed

text \<open>
  C4. A disk that fills up in the middle of a block after 4 GiB of a file. The fill phase
  is not fatal: it prints the write error once, calls \<^verbatim>\<open>write\<close> no further, creates no
  second file, and the run goes on to the verify phase. The file holds the first
  4294967304 bytes of the stream seeded at 43, but the marker \<^verbatim>\<open>g_last_filesize\<close> is 8, the
  byte count cut to \<^verbatim>\<open>unsigned int\<close>. The verify phase reads block 0, reads 8 bytes at
  block 1, and at block 2 hands \<^verbatim>\<open>read\<close> the size 4293918728 for a block of 1048576 bytes,
  which the file can fill beyond the block; the phase does not reach its success line.
\<close>

theorem marker_loses_the_high_bits_of_the_partial_size:
  "\<exists>G' w' ino. main files_of_4097_blocks disk_full_after_4_gib
            = Some (Overrun G' w', [CLEAN_OLD, FILL, VERIFY])
         \<and> stdout w' = [Writing_files 42, Error_writing_next_file ''random-00000000'',
                         Wrote ''random-00000000'' 4294967304 False, Verifying 1 42]
         \<and> write_results w' = []
         \<and> dir w' ''random-00000000'' = Some ino \<and> dir w' ''random-00000001'' = None
         \<and> inodes w' ino = take 4294967304 (stream_bytes 43 (4097 * block_items))
         \<and> length (inodes w' ino) = 4294967304
         \<and> g_last_filesize G' = 8
         \<and> unat (read_size_of G' 1 1 2) = 4293918728
         \<and> sizeof_block = 1048576"
proof -
  let ?G = files_of_4097_blocks
  let ?G1 = "?G\<lparr>g_last_filesize := 8\<rparr>"
  let ?r = "lcg_state 43 (4096 * block_items)"
  define wf where "wf = print (Wrote (filename_of 0) 4294967304 False) (os_close 0
       (print (Error_writing_next_file (filename_of 0))
          (wrote 0 0 (take 8 (stream_bytes ?r block_items)) 2
             (wrote 0 0 (stream_bytes 43 (4096 * block_items)) 4096
                (created (filename_of 0) (print (Writing_files 42) disk_full_after_4_gib))))))"
  have wr: "write_randfiles ?G (unlink_randfiles disk_full_after_4_gib) = (?G1, wf)"
    unfolding wf_def by (rule write_until_disk_full)
  have bytes: "stream_bytes 43 (4096 * block_items) @ take 8 (stream_bytes ?r block_items)
             = take 4294967304 (stream_bytes 43 (4097 * block_items))"
  proof -
    have "4097 * block_items = 4096 * block_items + block_items" by simp
    then have "stream_bytes 43 (4097 * block_items)
             = stream_bytes 43 (4096 * block_items) @ stream_bytes ?r block_items"
      by (simp only: stream_bytes_add)
    moreover have "length (stream_bytes 43 (4096 * block_items)) = 4294967296"
      by (simp add: length_stream_bytes block_items_def sizeof_block_def sizeof_item_type_def)
    ultimately show ?thesis by simp
  qed
  have d0: "dir wf (filename_of 0) = Some 0" and d1: "dir wf (filename_of 1) = None"
    and rf: "read_fails wf = []" and wres: "write_results wf = []"
    and out: "stdout wf = [Writing_files 42, Error_writing_next_file (filename_of 0),
                           Wrote (filename_of 0) 4294967304 False]"
    by (simp_all add: wf_def print_def)
  have dat: "inodes wf 0 = take 4294967304 (stream_bytes 43 (4097 * block_items))"
    using bytes by (simp add: wf_def)
  obtain w' where r: "read_randfiles ?G1 wf = Some (Overrun ?G1 w')"
    and out': "stdout w' = stdout wf @ [Verifying 1 42]"
    and d': "dir w' = dir wf" and i': "inodes w' = inodes wf"
    and wr': "write_results w' = write_results wf"
    using verify_after_disk_full [OF d0 d1 dat rf] by blast
  have rp: "nat (gopt_repeat ?G) = Suc 0" by simp
  have m: "main ?G disk_full_after_4_gib = Some (Overrun ?G1 w', [CLEAN_OLD, FILL, VERIFY])"
    unfolding main_def rp
    using main_loop_fill_verify [of ?G disk_full_after_4_gib ?G1 wf 0 "[]", OF _ wr]
    by (simp add: r)
  have len: "length (inodes w' 0) = 4294967304"
    unfolding i' dat
    by (simp add: length_stream_bytes block_items_def sizeof_block_def sizeof_item_type_def)
  have "dir w' ''random-00000000'' = Some 0 \<and> dir w' ''random-00000001'' = None"
    using d0 d1 by (simp add: d' filename_of_0 filename_of_1)
  moreover have "inodes w' 0 = take 4294967304 (stream_bytes 43 (4097 * block_items))"
    by (simp only: i' dat)
  moreover have "stdout w' = [Writing_files 42, Error_writing_next_file ''random-00000000'',
                         Wrote ''random-00000000'' 4294967304 False, Verifying 1 42]"
    by (simp add: out' out filename_of_0)
  moreover have "write_results w' = []" by (simp add: wr' wres)
  moreover have "unat (read_size_of ?G1 1 1 2) = 4293918728" by (rule oversized_read_size)
  moreover have "sizeof_block = 1048576" by (simp add: sizeof_block_def)
  ultimately show ?thesis
    unfolding m using len by (intro exI [of _ ?G1] exI [of _ w'] exI [of _ 0]) simp
qed

end
